theory Spec2Isabelle
  imports Main "HOL-Library.List_Lexorder"
begin

section \<open>Python values\<close>

text \<open>
  A Python \<open>str\<close> is a sequence of Unicode code points, and \<open>len\<close> counts code points.
  A code point is a natural number; \<open>bytes\<close> are lists of naturals below 256.
  The order on \<open>str\<close> is the lexicographic order on code points, which is the order
  that the library theory \<open>List_Lexorder\<close> puts on lists.
\<close>

type_synonym pystr = "nat list"
type_synonym pybytes = "nat list"

definition ascii :: "string \<Rightarrow> pystr" where
  "ascii s = map of_char s"

text \<open>\<open>str(n)\<close> for a non-negative integer: its decimal digits.\<close>

function str_nat :: "nat \<Rightarrow> pystr" where
  "str_nat n = (if n < 10 then [48 + n] else str_nat (n div 10) @ [48 + n mod 10])"
  by pat_completeness auto
termination
  by (relation "measure id") auto

declare str_nat.simps [simp del]

text \<open>\<open>sep.join(xs)\<close>.\<close>

fun join :: "pystr \<Rightarrow> pystr list \<Rightarrow> pystr" where
  "join sep [] = []"
| "join sep [x] = x"
| "join sep (x # y # ys) = x @ sep @ join sep (y # ys)"

text \<open>\<open>s.split(sep)\<close> for a separator of one character.\<close>

fun split_sep :: "nat \<Rightarrow> pystr \<Rightarrow> pystr list" where
  "split_sep sep [] = [[]]"
| "split_sep sep (c # cs) =
     (if c = sep then [] # split_sep sep cs
      else (case split_sep sep cs of
              [] \<Rightarrow> [[c]]
            | p # ps \<Rightarrow> (c # p) # ps))"

text \<open>\<open>s.lstrip('/')\<close>: every leading \<open>/\<close> (code point 47) is removed.\<close>

definition lstrip_slash :: "pystr \<Rightarrow> pystr" where
  "lstrip_slash s = dropWhile (\<lambda>c. c = 47) s"

subsection \<open>UTF-8\<close>

text \<open>
  \<open>s.encode('utf-8')\<close>. A lone surrogate (U+D800 to U+DFFF) cannot be encoded:
  Python raises \<open>UnicodeEncodeError\<close>, here \<open>None\<close>. Such code points do occur in
  file names, where \<open>os.listdir\<close> decodes undecodable bytes with \<open>surrogateescape\<close>.
\<close>

definition utf8_char :: "nat \<Rightarrow> pybytes option" where
  "utf8_char c =
     (if c < 0x80 then Some [c]
      else if c < 0x800 then Some [0xC0 + c div 64, 0x80 + c mod 64]
      else if 0xD800 \<le> c \<and> c \<le> 0xDFFF then None
      else if c < 0x10000 then
        Some [0xE0 + c div 4096, 0x80 + (c div 64) mod 64, 0x80 + c mod 64]
      else if c < 0x110000 then
        Some [0xF0 + c div 262144, 0x80 + (c div 4096) mod 64,
              0x80 + (c div 64) mod 64, 0x80 + c mod 64]
      else None)"

fun utf8_encode :: "pystr \<Rightarrow> pybytes option" where
  "utf8_encode [] = Some []"
| "utf8_encode (c # cs) =
     (case utf8_char c of
        None \<Rightarrow> None
      | Some bs \<Rightarrow> (case utf8_encode cs of None \<Rightarrow> None | Some rest \<Rightarrow> Some (bs @ rest)))"

subsection \<open>Floating-point division by 1024 and the format \<open>.1f\<close>\<close>

text \<open>
  \<open>n // d\<close> rounded to the nearest integer, ties to the even one: the rounding of IEEE 754
  and of Python's float formatting.
\<close>

definition round_half_even_div :: "nat \<Rightarrow> nat \<Rightarrow> nat" where
  "round_half_even_div n d =
     (let q = n div d; r = n mod d
      in if 2 * r < d then q
         else if d < 2 * r then q + 1
         else if even q then q else q + 1)"

text \<open>\<open>int.bit_length()\<close>.\<close>

fun bit_length :: "nat \<Rightarrow> nat" where
  "bit_length n = (if n = 0 then 0 else Suc (bit_length (n div 2)))"

declare bit_length.simps [simp del]

text \<open>
  \<open>st_size / 1024\<close> is Python's true division of two integers: the double nearest to the
  quotient. A double has 53 significant bits and dividing by a power of two only changes the
  exponent, so the result is \<open>truediv_1024_num a / 1024\<close>, where \<open>truediv_1024_num a\<close> is
  \<open>a\<close> rounded to 53 significant bits. (\<open>st_size\<close> is an \<open>off_t\<close>, below \<open>2^63\<close>, far from
  the range where the division overflows.)
\<close>

definition truediv_1024_num :: "nat \<Rightarrow> nat" where
  "truediv_1024_num a =
     (if bit_length a \<le> 53 then a
      else (let sh = bit_length a - 53 in round_half_even_div a (2 ^ sh) * 2 ^ sh))"

text \<open>
  \<open>f"{x:.1f}"\<close> for the non-negative double \<open>x = num / 1024\<close>: the exact value of the
  double, correctly rounded to one decimal place (ties to even), integer part, a point, one digit.
\<close>

definition fmt_1f_1024 :: "nat \<Rightarrow> pystr" where
  "fmt_1f_1024 num =
     (let tenths = round_half_even_div (num * 10) 1024
      in str_nat (tenths div 10) @ ascii ''.'' @ str_nat (tenths mod 10))"

text \<open>
  The size column of a file, line 149:
  \<open>f"{item.stat().st_size/1024:.1f} KB" if item.stat().st_size > 0 else "0 KB"\<close>.
\<close>

definition size_label :: "nat \<Rightarrow> pystr" where
  "size_label st_size =
     (if st_size > 0 then fmt_1f_1024 (truediv_1024_num st_size) @ ascii '' KB''
      else ascii ''0 KB'')"

section \<open>The file system and \<open>pathlib\<close>\<close>

text \<open>
  The file system as \<open>os.stat\<close> and \<open>os.listdir\<close> see it on Linux: a tree whose leaves
  are regular files with their \<open>st_size\<close>, and whose directories list their children in the
  order \<open>os.listdir\<close> enumerates them. A directory \<open>Dir r x es\<close> records whether the server
  process may read it (list its names) and search it (look a name up in it). There are no
  symbolic links, and the tree does not change while one request is handled.
\<close>

datatype node = File nat | Dir bool bool "(pystr \<times> node) list"

text \<open>
  An absolute \<open>pathlib.Path\<close> is its list of parts below the root \<open>/\<close>. Equality and
  order of paths are those of the lists of parts: \<open>pathlib\<close> never collapses \<open>..\<close>.
\<close>

type_synonym path = "pystr list"

text \<open>
  A path is handed to the operating system as bytes, encoded by \<open>os.fsencode\<close>: UTF-8 with
  \<open>surrogateescape\<close>, where the code points U+DC80 to U+DCFF stand for one byte each. A
  string with another surrogate cannot be encoded (\<open>UnicodeEncodeError\<close>, a \<open>ValueError\<close>)
  and a string with NUL is refused (\<open>ValueError\<close>), both before the system call.
  \<open>fs_bytes\<close> is the number of bytes of a string that can be encoded.
\<close>

definition os_char_ok :: "nat \<Rightarrow> bool" where
  "os_char_ok c =
     (c \<noteq> 0 \<and> c < 0x110000 \<and> \<not> (0xD800 \<le> c \<and> c < 0xDC80) \<and> \<not> (0xDCFF < c \<and> c \<le> 0xDFFF))"

definition os_name_ok :: "pystr \<Rightarrow> bool" where
  "os_name_ok s = list_all os_char_ok s"

definition fs_bytes_char :: "nat \<Rightarrow> nat" where
  "fs_bytes_char c =
     (if c < 0x80 then 1
      else if c < 0x800 then 2
      else if 0xDC80 \<le> c \<and> c \<le> 0xDCFF then 1
      else if c < 0x10000 then 3
      else 4)"

definition fs_bytes :: "pystr \<Rightarrow> nat" where
  "fs_bytes s = sum_list (map fs_bytes_char s)"

text \<open>
  The limits of Linux: a name of more than \<open>NAME_MAX\<close> bytes cannot be looked up, and a path
  whose string \<open>/part/part\<dots>\<close> has \<open>PATH_MAX\<close> bytes or more is refused; both give
  \<open>ENAMETOOLONG\<close>.
\<close>

definition NAME_MAX :: nat where
  "NAME_MAX = 255"

definition PATH_MAX :: nat where
  "PATH_MAX = 4096"

definition path_bytes :: "path \<Rightarrow> nat" where
  "path_bytes p = (if p = [] then 1 else sum_list (map (\<lambda>s. 1 + fs_bytes s) p))"

text \<open>
  The names a directory can hold: not empty, not \<open>.\<close> or \<open>..\<close>, without \<open>/\<close>, the
  decoding of at most \<open>NAME_MAX\<close> bytes without NUL; and the names of one directory are
  distinct.
\<close>

definition valid_name :: "pystr \<Rightarrow> bool" where
  "valid_name n =
     (n \<noteq> [] \<and> n \<noteq> ascii ''.'' \<and> n \<noteq> ascii ''..'' \<and> 47 \<notin> set n \<and>
      os_name_ok n \<and> fs_bytes n \<le> NAME_MAX)"

fun wf_node :: "node \<Rightarrow> bool" where
  "wf_node (File _) = True"
| "wf_node (Dir r x es) =
     (distinct (map fst es) \<and> (\<forall>(n, c) \<in> set es. valid_name n \<and> wf_node c))"

text \<open>The errors of path resolution, and the exceptions of the model.\<close>

datatype errno = ENOENT | ENOTDIR | ENAMETOOLONG | EACCES

datatype exn = UnicodeEncodeError | ValueError | OSError errno

text \<open>
  Path resolution by the operating system. The trail holds the directories entered so far,
  innermost first, each with the name it was entered by; the root has an empty trail.
  Looking a part up needs a directory (\<open>ENOTDIR\<close> from a regular file) that may be searched
  (\<open>EACCES\<close>). Then \<open>..\<close> leaves the current directory (and stays at the root), \<open>.\<close>
  stays, and a name enters the child of that name: \<open>ENAMETOOLONG\<close> for a name over
  \<open>NAME_MAX\<close>, \<open>ENOENT\<close> for a missing one.
\<close>

type_synonym trail = "(pystr \<times> node) list"

definition cur :: "node \<Rightarrow> trail \<Rightarrow> node" where
  "cur root t = (case t of [] \<Rightarrow> root | (_, n) # _ \<Rightarrow> n)"

definition step_seg :: "node \<Rightarrow> trail \<Rightarrow> pystr \<Rightarrow> errno + trail" where
  "step_seg root t seg =
     (case cur root t of
        File _ \<Rightarrow> Inl ENOTDIR
      | Dir r x es \<Rightarrow>
          if \<not> x then Inl EACCES
          else if seg = ascii ''..'' then Inr (tl t)
          else if seg = ascii ''.'' then Inr t
          else if NAME_MAX < fs_bytes seg then Inl ENAMETOOLONG
          else (case map_of es seg of
                  None \<Rightarrow> Inl ENOENT
                | Some n \<Rightarrow> Inr ((seg, n) # t)))"

fun walk :: "node \<Rightarrow> trail \<Rightarrow> path \<Rightarrow> errno + trail" where
  "walk root t [] = Inr t"
| "walk root t (seg # segs) =
     (case step_seg root t seg of
        Inl e \<Rightarrow> Inl e
      | Inr t' \<Rightarrow> walk root t' segs)"

text \<open>The place a trail has reached: its names from the root down, with no \<open>..\<close> left.\<close>

definition location :: "trail \<Rightarrow> path" where
  "location t = rev (map fst t)"

text \<open>
  \<open>os.stat(path)\<close>: where the path leads and what is there, or the exception raised:
  \<open>ValueError\<close> for a path that cannot be handed over, \<open>OSError\<close> with the error of the
  system call.
\<close>

definition stat :: "node \<Rightarrow> path \<Rightarrow> exn + (path \<times> node)" where
  "stat root p =
     (if \<not> list_all os_name_ok p then Inl ValueError
      else if PATH_MAX \<le> path_bytes p then Inl (OSError ENAMETOOLONG)
      else (case walk root [] p of
              Inl e \<Rightarrow> Inl (OSError e)
            | Inr t \<Rightarrow> Inr (location t, cur root t)))"

text \<open>
  \<open>Path.exists()\<close> and \<open>Path.is_dir()\<close>, as in the \<open>pathlib\<close> of Python 3.11: they call
  \<open>os.stat\<close> and answer \<open>False\<close> for a \<open>ValueError\<close> (\<open>UnicodeEncodeError\<close> is one) and
  for the errors \<open>pathlib\<close> ignores (\<open>ENOENT\<close>, \<open>ENOTDIR\<close>, \<open>EBADF\<close>, \<open>ELOOP\<close>), of
  which \<open>ENOENT\<close> and \<open>ENOTDIR\<close> occur here; every other \<open>OSError\<close> is raised again.
\<close>

definition ignore_error :: "errno \<Rightarrow> bool" where
  "ignore_error e = (e = ENOENT \<or> e = ENOTDIR)"

definition exists :: "node \<Rightarrow> path \<Rightarrow> exn + bool" where
  "exists root p =
     (case stat root p of
        Inr _ \<Rightarrow> Inr True
      | Inl (OSError e) \<Rightarrow> if ignore_error e then Inr False else Inl (OSError e)
      | Inl _ \<Rightarrow> Inr False)"

definition is_dir :: "node \<Rightarrow> path \<Rightarrow> exn + bool" where
  "is_dir root p =
     (case stat root p of
        Inr (_, Dir _ _ _) \<Rightarrow> Inr True
      | Inr (_, File _) \<Rightarrow> Inr False
      | Inl (OSError e) \<Rightarrow> if ignore_error e then Inr False else Inl (OSError e)
      | Inl _ \<Rightarrow> Inr False)"

text \<open>
  \<open>Path.iterdir()\<close>: one path per name of \<open>os.listdir\<close>, in its order. \<open>os.listdir\<close>
  fails as \<open>os.stat\<close> does, on a regular file (\<open>NotADirectoryError\<close>, the \<open>OSError\<close> of
  \<open>ENOTDIR\<close>) and on a directory that may not be read (\<open>PermissionError\<close>, of \<open>EACCES\<close>).
\<close>

definition iterdir :: "node \<Rightarrow> path \<Rightarrow> exn + path list" where
  "iterdir root p =
     (case stat root p of
        Inl e \<Rightarrow> Inl e
      | Inr (_, File _) \<Rightarrow> Inl (OSError ENOTDIR)
      | Inr (_, Dir r _ es) \<Rightarrow>
          if r then Inr (map (\<lambda>(n, _). p @ [n]) es) else Inl (OSError EACCES))"

text \<open>
  \<open>Path.stat().st_size\<close>. The tree records the size of regular files only; for a
  directory the usual 4096 stands in, a value that is never used, since \<open>list_entry\<close> asks
  for the size only where \<open>is_dir\<close> is false.
\<close>

definition st_size :: "node \<Rightarrow> path \<Rightarrow> exn + nat" where
  "st_size root p =
     (case stat root p of
        Inl e \<Rightarrow> Inl e
      | Inr (_, File n) \<Rightarrow> Inr n
      | Inr (_, Dir _ _ _) \<Rightarrow> Inr 4096)"

text \<open>\<open>Path.name\<close>: the last part.\<close>

definition name :: "path \<Rightarrow> pystr" where
  "name p = (if p = [] then [] else last p)"

text \<open>
  \<open>base / s\<close> for a string \<open>s\<close> that does not start with \<open>/\<close>: the parts of \<open>s\<close> are what
  lies between its slashes, without the empty ones and without \<open>.\<close>, appended to the parts of
  \<open>base\<close>. Nothing else is interpreted: \<open>..\<close>, \<open>%\<close> and \<open>?\<close> stay as they are.
\<close>

definition parse_parts :: "pystr \<Rightarrow> path" where
  "parse_parts s = filter (\<lambda>p. p \<noteq> [] \<and> p \<noteq> ascii ''.'') (split_sep 47 s)"

definition joinpath :: "path \<Rightarrow> pystr \<Rightarrow> path" where
  "joinpath base s = base @ parse_parts s"

text \<open>
  \<open>str(path.relative_to(base))\<close> for a path that starts with the parts of \<open>base\<close>: the other
  parts joined by \<open>/\<close>, and \<open>.\<close> when there is none. Otherwise \<open>ValueError\<close>, which no path
  built by \<open>joinpath base\<close> meets.
\<close>

definition relative_to_str :: "path \<Rightarrow> path \<Rightarrow> pystr" where
  "relative_to_str p base =
     (let rel = drop (length base) p
      in if rel = [] then ascii ''.'' else join (ascii ''/'') rel)"

section \<open>The request handler\<close>

text \<open>
  What a handler does to its connection, in order: the calls of \<open>send_response\<close>,
  \<open>send_header\<close>, \<open>end_headers\<close> and \<open>wfile.write\<close>, the call of \<open>send_error\<close> with
  its code and its message (a fixed text followed by \<open>str(e)\<close> of the exception caught, if
  any), and the call of \<open>super().do_GET()\<close>, the file transfer of the standard library.
\<close>

datatype effect =
    SendResponse nat
  | SendHeader pystr pystr
  | EndHeaders
  | Write pybytes
  | SendError nat pystr "exn option"
  | SuperDoGET

text \<open>
  What a request sees of the world: the file system, \<open>self.base_path\<close> (the working
  directory at start), \<open>socket.gethostname()\<close>, \<open>repr(time.time())\<close> as \<open>json.dumps\<close>
  writes it, and \<open>time.ctime()\<close>.
\<close>

record world =
  fs :: node
  base_path :: path
  hostname :: pystr
  time_repr :: pystr
  time_ctime :: pystr

definition MAX_CONCURRENT_REQUESTS :: nat where
  "MAX_CONCURRENT_REQUESTS = 100"

text \<open>The style sheet, lines 16 to 73.\<close>

definition DARK_THEME :: pystr where
  \<open>DARK_THEME = ascii (concat
     [''\<newline>'',
      '':root {\<newline>'',
      ''    --bg: #121212;\<newline>'',
      ''    --text: #e0e0e0;\<newline>'',
      ''    --accent: #bb86fc;\<newline>'',
      ''    --border: #333;\<newline>'',
      ''}\<newline>'',
      ''body {\<newline>'',
      ''    font-family: 'Segoe UI', sans-serif;\<newline>'',
      ''    background: var(--bg);\<newline>'',
      ''    color: var(--text);\<newline>'',
      ''    margin: 0;\<newline>'',
      ''    padding: 20px;\<newline>'',
      ''    line-height: 1.6;\<newline>'',
      ''}\<newline>'',
      ''a {\<newline>'',
      ''    color: var(--accent);\<newline>'',
      ''    text-decoration: none;\<newline>'',
      ''}\<newline>'',
      ''a:hover {\<newline>'',
      ''    text-decoration: underline;\<newline>'',
      ''}\<newline>'',
      ''.container {\<newline>'',
      ''    max-width: 800px;\<newline>'',
      ''    margin: 0 auto;\<newline>'',
      ''    background: #1e1e1e;\<newline>'',
      ''    border-radius: 8px;\<newline>'',
      ''    padding: 20px;\<newline>'',
      ''    box-shadow: 0 4px 6px rgba(0,0,0,0.3);\<newline>'',
      ''}\<newline>'',
      ''.header {\<newline>'',
      ''    display: flex;\<newline>'',
      ''    justify-content: space-between;\<newline>'',
      ''    align-items: center;\<newline>'',
      ''    margin-bottom: 20px;\<newline>'',
      ''    padding-bottom: 10px;\<newline>'',
      ''    border-bottom: 1px solid var(--border);\<newline>'',
      ''}\<newline>'',
      ''.file-list {\<newline>'',
      ''    margin: 0;\<newline>'',
      ''    padding: 0;\<newline>'',
      ''    list-style: none;\<newline>'',
      ''}\<newline>'',
      ''.file-item {\<newline>'',
      ''    display: flex;\<newline>'',
      ''    justify-content: space-between;\<newline>'',
      ''    padding: 8px 12px;\<newline>'',
      ''    margin: 4px 0;\<newline>'',
      ''    border-radius: 4px;\<newline>'',
      ''}\<newline>'',
      ''.file-item:hover {\<newline>'',
      ''    background: #333;\<newline>'',
      ''}\<newline>'',
      ''.file-size {\<newline>'',
      ''    color: #aaa;\<newline>'',
      ''    font-family: monospace;\<newline>'',
      ''}\<newline>''])\<close>

subsection \<open>\<open>handle_api\<close>\<close>

text \<open>
  \<open>json.dumps\<close> of a flat dictionary of strings and floats, with the default separators and
  \<open>ensure_ascii\<close>: the keys in insertion order, a float as its \<open>repr\<close>, and in a string
  every character outside \<open>' '..'~'\<close>, the quote and the backslash escaped.
\<close>

datatype jvalue = JString pystr | JFloat pystr

definition hex_digit :: "nat \<Rightarrow> nat" where
  "hex_digit d = (if d < 10 then 48 + d else 87 + d)"

definition hex4 :: "nat \<Rightarrow> pystr" where
  "hex4 n = [hex_digit (n div 4096 mod 16), hex_digit (n div 256 mod 16),
             hex_digit (n div 16 mod 16), hex_digit (n mod 16)]"

text \<open>
  The backslash is code point 92; the escapes are \<open>\"\<close>, \<open>\\\<close>, \<open>\n\<close>, \<open>\r\<close>,
  \<open>\t\<close>, \<open>\b\<close>, \<open>\f\<close> and \<open>\uXXXX\<close> (a surrogate pair above U+FFFF).
\<close>

definition json_escape_char :: "nat \<Rightarrow> pystr" where
  "json_escape_char c =
     (if c = 34 then [92, 34]
      else if c = 92 then [92, 92]
      else if c = 10 then [92, 110]
      else if c = 13 then [92, 114]
      else if c = 9 then [92, 116]
      else if c = 8 then [92, 98]
      else if c = 12 then [92, 102]
      else if 32 \<le> c \<and> c \<le> 126 then [c]
      else if c < 0x10000 then [92, 117] @ hex4 c
      else (let n = c - 0x10000
            in [92, 117] @ hex4 (0xD800 + n div 1024 mod 1024) @
               [92, 117] @ hex4 (0xDC00 + n mod 1024)))"

definition json_string :: "pystr \<Rightarrow> pystr" where
  \<open>json_string s = ascii ''"'' @ concat (map json_escape_char s) @ ascii ''"''\<close>

fun json_value :: "jvalue \<Rightarrow> pystr" where
  "json_value (JString s) = json_string s"
| "json_value (JFloat r) = r"

definition json_member :: "pystr \<times> jvalue \<Rightarrow> pystr" where
  "json_member kv = json_string (fst kv) @ ascii '': '' @ json_value (snd kv)"

definition json_dumps :: "(pystr \<times> jvalue) list \<Rightarrow> pystr" where
  "json_dumps d = ascii ''{'' @ join (ascii '', '') (map json_member d) @ ascii ''}''"

text \<open>The dictionary of lines 108 to 113.\<close>

definition api_payload :: "world \<Rightarrow> (pystr \<times> jvalue) list" where
  "api_payload w =
     [(ascii ''status'', JString (ascii ''ok'')),
      (ascii ''timestamp'', JFloat (time_repr w)),
      (ascii ''host'', JString (hostname w)),
      (ascii ''message'', JString (ascii ''VM-compatible dark mode server''))]"

definition handle_api :: "world \<Rightarrow> exn + effect list" where
  "handle_api w =
     (case utf8_encode (json_dumps (api_payload w)) of
        None \<Rightarrow> Inl UnicodeEncodeError
      | Some response \<Rightarrow>
          Inr [SendResponse 200,
               SendHeader (ascii ''Content-Type'') (ascii ''application/json''),
               SendHeader (ascii ''Content-Length'') (str_nat (length response)),
               EndHeaders,
               Write response])"

subsection \<open>\<open>send_directory_listing\<close>\<close>

type_synonym item = "pystr \<times> pystr \<times> pystr"

text \<open>The entry \<open>(display name, kind, size label)\<close> of one child, lines 146 to 150.\<close>

definition list_entry :: "node \<Rightarrow> path \<Rightarrow> exn + item" where
  "list_entry root child =
     (case is_dir root child of
        Inl e \<Rightarrow> Inl e
      | Inr True \<Rightarrow> Inr (name child @ ascii ''/'', ascii ''Directory'', ascii ''-'')
      | Inr False \<Rightarrow>
          (case st_size root child of
             Inl e \<Rightarrow> Inl e
           | Inr sz \<Rightarrow> Inr (name child, ascii ''File'', size_label sz)))"

text \<open>The loop of line 145 over the sorted children: the first exception ends it.\<close>

fun list_entries :: "node \<Rightarrow> path list \<Rightarrow> exn + item list" where
  "list_entries root [] = Inr []"
| "list_entries root (child # rest) =
     (case list_entry root child of
        Inl e \<Rightarrow> Inl e
      | Inr it \<Rightarrow> (case list_entries root rest of
                    Inl e \<Rightarrow> Inl e
                  | Inr its \<Rightarrow> Inr (it # its)))"

definition parent_item :: item where
  "parent_item = (ascii ''../'', ascii ''Parent Directory'', ascii ''-'')"

text \<open>
  The list \<open>items\<close> of lines 138 to 150: the parent link unless \<open>path == self.base_path\<close>,
  then one entry per child, in the order of \<open>sorted(path.iterdir())\<close>.
\<close>

definition collect_items :: "node \<Rightarrow> path \<Rightarrow> path \<Rightarrow> exn + item list" where
  "collect_items root base p =
     (case iterdir root p of
        Inl e \<Rightarrow> Inl e
      | Inr children \<Rightarrow>
          (case list_entries root (sort children) of
             Inl e \<Rightarrow> Inl e
           | Inr its \<Rightarrow> Inr ((if p \<noteq> base then [parent_item] else []) @ its)))"

text \<open>One list item, lines 154 to 157; the kind of the entry is not rendered.\<close>

definition render_item :: "item \<Rightarrow> pystr" where
  \<open>render_item it =
     (case it of (nm, _, lbl) \<Rightarrow>
        ascii ''<li class="file-item">'' @
        ascii ''<a href="'' @ nm @ ascii ''">'' @ nm @ ascii ''</a>'' @
        ascii ''<span class="file-size">'' @ lbl @ ascii ''</span>'' @
        ascii ''</li>'')\<close>

definition file_items :: "item list \<Rightarrow> pystr" where
  "file_items its = join (ascii ''\<newline>'') (map render_item its)"

definition listing_title :: "path \<Rightarrow> path \<Rightarrow> pystr" where
  "listing_title p base = ascii ''Directory listing for /'' @ relative_to_str p base"

text \<open>The document of lines 161 to 179.\<close>

definition html_document :: "pystr \<Rightarrow> pystr \<Rightarrow> pystr \<Rightarrow> pystr" where
  \<open>html_document title now items_html =
     ascii ''<!DOCTYPE html>\<newline><html>\<newline><head>\<newline>    <title>'' @ title @
     ascii ''</title>\<newline>    <meta name="viewport" content="width=device-width, initial-scale=1">\<newline>    <style>'' @
     DARK_THEME @
     ascii ''</style>\<newline></head>\<newline><body>\<newline>    <div class="container">\<newline>        <div class="header">\<newline>            <h1>'' @
     title @
     ascii ''</h1>\<newline>            <small>'' @ now @
     ascii ''</small>\<newline>        </div>\<newline>        <ul class="file-list">\<newline>            '' @
     items_html @
     ascii ''\<newline>        </ul>\<newline>    </div>\<newline></body>\<newline></html>''\<close>

definition listing_html :: "world \<Rightarrow> path \<Rightarrow> item list \<Rightarrow> pystr" where
  "listing_html w p its =
     html_document (listing_title p (base_path w)) (time_ctime w) (file_items its)"

text \<open>
  Lines 134 to 188. The headers are written before the document is encoded, so an encoding
  error is caught after \<open>end_headers\<close> and \<open>send_error\<close> follows the headers already sent.
\<close>

definition send_directory_listing :: "world \<Rightarrow> path \<Rightarrow> effect list" where
  "send_directory_listing w p =
     (case collect_items (fs w) (base_path w) p of
        Inl e \<Rightarrow> [SendError 500 (ascii ''Directory listing failed: '') (Some e)]
      | Inr its \<Rightarrow>
          (let html = listing_html w p its;
               head = [SendResponse 200,
                       SendHeader (ascii ''Content-Type'') (ascii ''text/html''),
                       SendHeader (ascii ''Content-Length'') (str_nat (length html)),
                       EndHeaders]
           in case utf8_encode html of
                None \<Rightarrow>
                  head @ [SendError 500 (ascii ''Directory listing failed: '')
                            (Some UnicodeEncodeError)]
              | Some body \<Rightarrow> head @ [Write body]))"

subsection \<open>\<open>handle_file_or_dir\<close> and \<open>do_GET\<close>\<close>

text \<open>Line 123: \<open>self.base_path / self.path.lstrip('/')\<close>.\<close>

definition request_path :: "path \<Rightarrow> pystr \<Rightarrow> path" where
  "request_path base raw = joinpath base (lstrip_slash raw)"

text \<open>
  Lines 121 to 132. An exception of \<open>path.exists()\<close> or \<open>path.is_dir()\<close> leaves the
  method; \<open>do_GET\<close> catches it.
\<close>

definition handle_file_or_dir :: "world \<Rightarrow> pystr \<Rightarrow> exn + effect list" where
  "handle_file_or_dir w raw =
     (let p = request_path (base_path w) raw
      in case exists (fs w) p of
           Inl e \<Rightarrow> Inl e
         | Inr False \<Rightarrow> Inr [SendError 404 (ascii ''Not Found'') None]
         | Inr True \<Rightarrow>
             (case is_dir (fs w) p of
                Inl e \<Rightarrow> Inl e
              | Inr True \<Rightarrow> Inr (send_directory_listing w p)
              | Inr False \<Rightarrow> Inr [SuperDoGET]))"

text \<open>Lines 96 to 104: any exception of the two handlers is answered with 500.\<close>

definition do_GET :: "world \<Rightarrow> pystr \<Rightarrow> effect list" where
  "do_GET w raw =
     (case (if raw = ascii ''/tcpstates'' then handle_api w else handle_file_or_dir w raw) of
        Inl e \<Rightarrow> [SendError 500 (ascii ''Server error: '') (Some e)]
      | Inr effs \<Rightarrow> effs)"

section \<open>The admission gate\<close>

text \<open>
  \<open>threading.Semaphore\<close>: \<open>acquire\<close> takes a slot when the counter is positive, and
  otherwise the caller waits (\<open>None\<close>: the call has not returned); \<open>release\<close> gives one back.
  Both are atomic.
\<close>

definition sem_acquire :: "nat \<Rightarrow> nat option" where
  "sem_acquire v = (if v = 0 then None else Some (v - 1))"

definition sem_release :: "nat \<Rightarrow> nat" where
  "sem_release v = v + 1"

text \<open>
  How \<open>super().handle_one_request()\<close> ends when it does not return normally: the client is
  gone (\<open>ConnectionResetError\<close>, \<open>BrokenPipeError\<close>), another \<open>Exception\<close>, or an
  exception outside \<open>Exception\<close> (\<open>KeyboardInterrupt\<close>, \<open>SystemExit\<close>).
\<close>

datatype failure = ClientDisconnected | OtherException | NonException

datatype log_entry = Warning | Error

datatype sem_op = AcquireOp | ReleaseOp

record handler =
  close_connection :: bool
  log :: "log_entry list"
  sem_ops :: "sem_op list"

text \<open>
  \<open>handle_one_request\<close>, lines 84 to 94, on the counter of the semaphore. The \<open>with\<close>
  statement releases the slot however its body ends; then the exception, if any, is logged
  or, outside \<open>Exception\<close>, raised again; \<open>finally\<close> sets \<open>close_connection\<close>.
  The result is \<open>None\<close> while the request waits at \<open>acquire\<close>; otherwise the counter, the
  handler and the exception that leaves the method. \<open>sem_ops\<close> records the calls made on
  the semaphore.
\<close>

definition handle_one_request ::
  "nat \<Rightarrow> handler \<Rightarrow> failure option \<Rightarrow> (nat \<times> handler \<times> failure option) option" where
  "handle_one_request v h body =
     (case sem_acquire v of
        None \<Rightarrow> None
      | Some v1 \<Rightarrow>
          (let h1 = h\<lparr>sem_ops := sem_ops h @ [AcquireOp]\<rparr>;
               v2 = sem_release v1;
               h2 = h1\<lparr>sem_ops := sem_ops h1 @ [ReleaseOp]\<rparr>;
               h3 = (case body of
                       Some ClientDisconnected \<Rightarrow> h2\<lparr>log := log h2 @ [Warning]\<rparr>
                     | Some OtherException \<Rightarrow> h2\<lparr>log := log h2 @ [Error]\<rparr>
                     | _ \<Rightarrow> h2);
               raised = (case body of Some NonException \<Rightarrow> Some NonException | _ \<Rightarrow> None)
           in Some (v2, h3\<lparr>close_connection := True\<rparr>, raised)))"

text \<open>
  Many requests at once: every connection has a thread of its own, which waits at
  \<open>acquire\<close>, is then inside \<open>super().handle_one_request()\<close>, and has finished once the
  \<open>with\<close> statement has released its slot. A schedule is the order in which the threads
  make their calls on the one semaphore of the class.
\<close>

datatype phase = Waiting | Handling | Finished "failure option"

record gate =
  sem :: nat
  threads :: "phase list"

datatype event = Acquire nat | Release nat "failure option"

text \<open>An event that cannot happen in the state (a waiting \<open>acquire\<close> among them) gives \<open>None\<close>.\<close>

fun fire :: "event \<Rightarrow> gate \<Rightarrow> gate option" where
  "fire (Acquire i) g =
     (if i < length (threads g) \<and> threads g ! i = Waiting then
        (case sem_acquire (sem g) of
           None \<Rightarrow> None
         | Some v \<Rightarrow> Some \<lparr>sem = v, threads = (threads g)[i := Handling]\<rparr>)
      else None)"
| "fire (Release i body) g =
     (if i < length (threads g) \<and> threads g ! i = Handling then
        Some \<lparr>sem = sem_release (sem g), threads = (threads g)[i := Finished body]\<rparr>
      else None)"

fun run :: "event list \<Rightarrow> gate \<Rightarrow> gate option" where
  "run [] g = Some g"
| "run (e # es) g = (case fire e g of None \<Rightarrow> None | Some g' \<Rightarrow> run es g')"

text \<open>\<open>Semaphore(maximum)\<close> and \<open>n\<close> connections accepted, none of them past the gate.\<close>

definition start :: "nat \<Rightarrow> nat \<Rightarrow> gate" where
  "start maximum n = \<lparr>sem = maximum, threads = replicate n Waiting\<rparr>"

definition inside :: "gate \<Rightarrow> nat" where
  "inside g = length (filter (\<lambda>p. p = Handling) (threads g))"

definition waiting :: "gate \<Rightarrow> nat" where
  "waiting g = length (filter (\<lambda>p. p = Waiting) (threads g))"

fun is_acquire :: "event \<Rightarrow> bool" where
  "is_acquire (Acquire _) = True"
| "is_acquire (Release _ _) = False"

section \<open>Auxiliary notions\<close>

text \<open>Every node on a trail is well formed.\<close>

definition trail_wf :: "node \<Rightarrow> trail \<Rightarrow> bool" where
  "trail_wf root t = (wf_node root \<and> (\<forall>(n, c) \<in> set t. wf_node c))"

text \<open>
  The entry of a child, from its name and what \<open>os.stat\<close> finds there; \<open>list_entry\<close>
  computes it from the path of the child.
\<close>

definition child_item :: "pystr \<times> node \<Rightarrow> item" where
  "child_item e =
     (case snd e of
        Dir _ _ _ \<Rightarrow> (fst e @ ascii ''/'', ascii ''Directory'', ascii ''-'')
      | File sz \<Rightarrow> (fst e, ascii ''File'', size_label sz))"

text \<open>
  Every child of the directory at \<open>p\<close> can be handed to \<open>os.stat\<close>: its path stays
  below \<open>PATH_MAX\<close>.
\<close>

definition children_fit :: "path \<Rightarrow> (pystr \<times> node) list \<Rightarrow> bool" where
  "children_fit p es = list_all (\<lambda>e. path_bytes (p @ [fst e]) < PATH_MAX) es"

text \<open>
  Following the spec: the size label of a file is \<open>{size_in_KiB:.1f} KB\<close> with
  \<open>size_in_KiB\<close> the byte size divided by 1024, rounded to one decimal place, ties to even.
\<close>

definition spec_size_label :: "nat \<Rightarrow> pystr" where
  "spec_size_label sz =
     (let tenths = round_half_even_div (sz * 10) 1024
      in str_nat (tenths div 10) @ ascii ''.'' @ [48 + tenths mod 10] @ ascii '' KB'')"

text \<open>
  The directory of the spec's example: \<open>a.txt\<close> (0 bytes), \<open>b.txt\<close> (2048 bytes) and
  the subdirectory \<open>sub\<close>, enumerated in another order.
\<close>

definition spec_example_dir :: node where
  "spec_example_dir =
     Dir True True
       [(ascii ''sub'', Dir True True []), (ascii ''b.txt'', File 2048), (ascii ''a.txt'', File 0)]"

text \<open>
  The tree of the spec's end-to-end scenario: the server runs in \<open>/srv/www\<close>, which holds
  \<open>index.html\<close> (10 bytes) and the empty directory \<open>empty\<close>; beside it, outside the
  base directory, lies \<open>/srv/secret.txt\<close>.
\<close>

definition example_www :: "(pystr \<times> node) list" where
  "example_www = [(ascii ''index.html'', File 10), (ascii ''empty'', Dir True True [])]"

definition example_srv :: "(pystr \<times> node) list" where
  "example_srv = [(ascii ''www'', Dir True True example_www), (ascii ''secret.txt'', File 5)]"

definition example_root :: node where
  "example_root = Dir True True [(ascii ''srv'', Dir True True example_srv)]"

definition example_base :: path where
  "example_base = [ascii ''srv'', ascii ''www'']"

definition example_world :: world where
  "example_world =
     \<lparr>fs = example_root, base_path = example_base, hostname = ascii ''vm1'',
      time_repr = ascii ''1700000000.5'', time_ctime = ascii ''Tue Nov  3 14:00:00 2026''\<rparr>"

text \<open>
  A server whose base directory is the root and holds one file, named \<open>a b\<close>.
\<close>

definition space_world :: world where
  "space_world =
     \<lparr>fs = Dir True True [(ascii ''a b'', File 3)], base_path = [], hostname = ascii ''vm1'',
      time_repr = ascii ''1700000000.5'', time_ctime = ascii ''Tue Nov  3 14:00:00 2026''\<rparr>"

text \<open>
  A server whose base directory is the root and holds one file, whose name is \<open>a b\<close>
  written 64 times (192 bytes); and the request for the percent-encoded form of that name,
  \<open>a%20b\<close> written 64 times (320 bytes).
\<close>

definition long_name :: pystr where
  "long_name = concat (replicate 64 (ascii ''a b''))"

definition long_name_encoded :: pystr where
  "long_name_encoded = concat (replicate 64 (ascii ''a%20b''))"

definition long_world :: world where
  "long_world =
     \<lparr>fs = Dir True True [(long_name, File 3)], base_path = [], hostname = ascii ''vm1'',
      time_repr = ascii ''1700000000.5'', time_ctime = ascii ''Tue Nov  3 14:00:00 2026''\<rparr>"

text \<open>
  A resolved location lies within the base directory when the parts of the base directory
  are its first parts.
\<close>

definition is_within :: "path \<Rightarrow> path \<Rightarrow> bool" where
  "is_within base loc = (take (length base) loc = base)"

text \<open>
  The calls a thread has made on the semaphore when it is in a phase, as
  \<open>(acquire, release)\<close>, and the calls of thread \<open>i\<close> in a schedule.
\<close>

fun phase_ops :: "phase \<Rightarrow> nat \<times> nat" where
  "phase_ops Waiting = (0, 0)"
| "phase_ops Handling = (1, 0)"
| "phase_ops (Finished _) = (1, 1)"

fun event_ops :: "nat \<Rightarrow> event \<Rightarrow> nat \<times> nat" where
  "event_ops i (Acquire j) = (if i = j then (1, 0) else (0, 0))"
| "event_ops i (Release j _) = (if i = j then (0, 1) else (0, 0))"

definition acquires_of :: "nat \<Rightarrow> event list \<Rightarrow> nat" where
  "acquires_of i evs = sum_list (map (\<lambda>e. fst (event_ops i e)) evs)"

definition releases_of :: "nat \<Rightarrow> event list \<Rightarrow> nat" where
  "releases_of i evs = sum_list (map (\<lambda>e. snd (event_ops i e)) evs)"

text \<open>No thread has finished yet: every one waits at the gate or is past it.\<close>

definition two_phase :: "gate \<Rightarrow> bool" where
  "two_phase g = (\<forall>p \<in> set (threads g). p = Waiting \<or> p = Handling)"

section \<open>Path resolution and the entries of a directory\<close>

lemma ascii_simps [simp]: "ascii [] = []" "ascii (c # cs) = of_char c # ascii cs"
  by (simp_all add: ascii_def)

lemma path_bytes_Nil: "path_bytes [] < PATH_MAX"
  by (simp add: path_bytes_def PATH_MAX_def)

lemma stat_root: "stat (Dir r x es) [] = Inr ([], Dir r x es)"
  using path_bytes_Nil by (simp add: stat_def location_def cur_def)

lemma walk_append:
  "walk root t (p @ q) = (case walk root t p of Inl e \<Rightarrow> Inl e | Inr t' \<Rightarrow> walk root t' q)"
  by (induction p arbitrary: t) (auto split: sum.splits)

lemma stat_InrD:
  assumes "stat root p = Inr (loc, c)"
  shows "list_all os_name_ok p" and "path_bytes p < PATH_MAX"
    and "\<exists>t. walk root [] p = Inr t \<and> loc = location t \<and> c = cur root t"
  using assms by (auto simp: stat_def split: if_splits sum.splits)

lemma stat_InrI:
  assumes "list_all os_name_ok p" and "path_bytes p < PATH_MAX" and "walk root [] p = Inr t"
  shows "stat root p = Inr (location t, cur root t)"
  using assms by (simp add: stat_def)

lemma append_le_append_iff: "(p @ xs \<le> p @ ys) = (xs \<le> (ys::'a::linorder list))"
  by (induction p) auto

lemma insort_key_order_cong:
  assumes "\<And>x y. (f x \<le> f y) = (g x \<le> g y)"
  shows "insort_key f x xs = insort_key g x xs"
  by (induction xs) (auto simp: assms)

lemma sort_key_order_cong:
  assumes "\<And>x y. (f x \<le> f y) = (g x \<le> g y)"
  shows "sort_key f xs = sort_key g xs"
  by (induction xs) (simp_all add: insort_key_order_cong [of f g, OF assms])

lemma map_insort_key: "map f (insort_key f x xs) = insort (f x) (map f xs)"
  by (induction xs) auto

lemma sort_map_key: "sort (map f xs) = map f (sort_key f xs)"
  by (induction xs) (simp_all add: map_insort_key)

lemma sort_children:
  fixes p :: path and es :: "(pystr \<times> 'b) list"
  shows "sort (map (\<lambda>(n, _). p @ [n]) es) = map (\<lambda>(n, _). p @ [n]) (sort_key fst es)"
proof -
  have "sort_key (\<lambda>(n, _). p @ [n]) es = sort_key fst es"
    by (rule sort_key_order_cong) (auto simp: append_le_append_iff)
  then show ?thesis by (simp add: sort_map_key)
qed

lemma cur_wf: "trail_wf root t \<Longrightarrow> wf_node (cur root t)"
  by (cases t) (auto simp: trail_wf_def cur_def)

lemma step_seg_wf:
  assumes "trail_wf root t" and "step_seg root t seg = Inr t'"
  shows "trail_wf root t'"
proof (cases "cur root t")
  case (File sz)
  with assms show ?thesis by (simp add: step_seg_def)
next
  case (Dir r x es)
  have wf: "wf_node (Dir r x es)" using cur_wf [OF assms(1)] Dir by simp
  from assms(2) Dir have "t' = tl t \<or> t' = t \<or> (\<exists>c. map_of es seg = Some c \<and> t' = (seg, c) # t)"
    by (auto simp: step_seg_def split: if_splits option.splits)
  then show ?thesis
  proof (elim disjE exE conjE)
    assume "t' = tl t"
    with assms(1) show ?thesis by (cases t) (auto simp: trail_wf_def)
  next
    assume "t' = t"
    with assms(1) show ?thesis by simp
  next
    fix c assume c: "map_of es seg = Some c" and t': "t' = (seg, c) # t"
    from c have "(seg, c) \<in> set es" by (rule map_of_SomeD)
    with wf have "wf_node c" by auto
    with assms(1) t' show ?thesis by (simp add: trail_wf_def)
  qed
qed

lemma walk_wf: "trail_wf root t \<Longrightarrow> walk root t p = Inr t' \<Longrightarrow> trail_wf root t'"
  by (induction p arbitrary: t) (auto split: sum.splits dest: step_seg_wf)

lemma stat_wf:
  assumes "wf_node root" and "stat root p = Inr (loc, c)"
  shows "wf_node c"
proof -
  from stat_InrD(3) [OF assms(2)] obtain t where t: "walk root [] p = Inr t"
    and c: "c = cur root t" by blast
  have "trail_wf root []" using assms(1) by (simp add: trail_wf_def)
  from walk_wf [OF this t] c show ?thesis by (simp add: cur_wf)
qed

lemma valid_name_facts:
  assumes "valid_name n"
  shows "n \<noteq> ascii ''..''" and "n \<noteq> ascii ''.''" and "os_name_ok n"
    and "\<not> NAME_MAX < fs_bytes n"
  using assms by (simp_all add: valid_name_def del: ascii_simps)

lemma stat_child:
  assumes "stat root p = Inr (loc, Dir r True es)"
    and "map_of es n = Some c" and "valid_name n" and "path_bytes (p @ [n]) < PATH_MAX"
  shows "stat root (p @ [n]) = Inr (loc @ [n], c)"
proof -
  from stat_InrD [OF assms(1)] obtain t where ok: "list_all os_name_ok p"
    and t: "walk root [] p = Inr t"
    and loc: "loc = location t" and cu: "cur root t = Dir r True es"
    by auto
  note v = valid_name_facts [OF assms(3)]
  have "step_seg root t n = Inr ((n, c) # t)"
    using cu assms(2) v(1,2,4) by (simp add: step_seg_def del: ascii_simps)
  then have w: "walk root [] (p @ [n]) = Inr ((n, c) # t)"
    using t by (simp add: walk_append)
  have "list_all os_name_ok (p @ [n])" using ok v(3) by simp
  from stat_InrI [OF this assms(4) w] show ?thesis
    using loc by (simp add: location_def cur_def)
qed

lemma list_entry_child:
  assumes "stat root p = Inr (loc, Dir r True es)" and "wf_node (Dir r True es)"
    and "(n, c) \<in> set es" and "path_bytes (p @ [n]) < PATH_MAX"
  shows "list_entry root (p @ [n]) = Inr (child_item (n, c))"
proof -
  from assms(2,3) have m: "map_of es n = Some c" by simp
  from assms(2,3) have v: "valid_name n" by auto
  from stat_child [OF assms(1) m v assms(4)]
  have "stat root (p @ [n]) = Inr (loc @ [n], c)" .
  then show ?thesis
    by (cases c) (simp_all add: list_entry_def is_dir_def st_size_def child_item_def name_def)
qed

lemma list_entries_map:
  assumes "\<And>k. k \<in> set kids \<Longrightarrow> list_entry root (f k) = Inr (g k)"
  shows "list_entries root (map f kids) = Inr (map g kids)"
  using assms by (induction kids) simp_all

lemma collect_items_eq:
  assumes "wf_node root" and "stat root p = Inr (loc, Dir True True es)"
    and "children_fit p es"
  shows "collect_items root base p =
           Inr ((if p \<noteq> base then [parent_item] else []) @ map child_item (sort_key fst es))"
proof -
  have wf: "wf_node (Dir True True es)" using stat_wf [OF assms(1,2)] .
  have it: "iterdir root p = Inr (map (\<lambda>(n, _). p @ [n]) es)"
    using assms(2) by (simp add: iterdir_def)
  have "list_entries root (map (\<lambda>(n, _). p @ [n]) (sort_key fst es))
          = Inr (map child_item (sort_key fst es))"
  proof (rule list_entries_map)
    fix k assume "k \<in> set (sort_key fst es)"
    then have k: "(fst k, snd k) \<in> set es" by simp
    then have "path_bytes (p @ [fst k]) < PATH_MAX"
      using assms(3) by (auto simp: children_fit_def list_all_iff)
    from list_entry_child [OF assms(2) wf k this]
    show "list_entry root ((\<lambda>(n, _). p @ [n]) k) = Inr (child_item k)"
      by (simp add: case_prod_unfold)
  qed
  then show ?thesis by (simp add: collect_items_def it sort_children)
qed

section \<open>Size labels\<close>

lemmas fs_eval =
  valid_name_def os_name_ok_def os_char_ok_def fs_bytes_def fs_bytes_char_def
  NAME_MAX_def PATH_MAX_def path_bytes_def children_fit_def

lemma bit_length_le: "n < 2 ^ k \<Longrightarrow> bit_length n \<le> k"
proof (induction n arbitrary: k rule: bit_length.induct)
  case (1 n)
  show ?case
  proof (cases "n = 0")
    case True
    then show ?thesis by (simp add: bit_length.simps)
  next
    case False
    then obtain j where k: "k = Suc j" using "1.prems" by (cases k) auto
    have "n div 2 < 2 ^ j" using "1.prems" k by auto
    then have "bit_length (n div 2) \<le> j" using "1.IH" False by blast
    then show ?thesis using False k by (simp add: bit_length.simps[of n])
  qed
qed

lemma truediv_1024_exact: "sz < 2 ^ 53 \<Longrightarrow> truediv_1024_num sz = sz"
  using bit_length_le [of sz 53] by (simp add: truediv_1024_num_def)

lemma str_nat_digit: "d < 10 \<Longrightarrow> str_nat d = [48 + d]"
  by (simp add: str_nat.simps)

lemma size_label_pos: "0 < sz \<Longrightarrow> size_label sz = spec_size_label (truediv_1024_num sz)"
  by (simp add: size_label_def spec_size_label_def fmt_1f_1024_def Let_def str_nat_digit)

text \<open>\<open>round_half_even_div n d\<close> is a nearest integer to \<open>n / d\<close>.\<close>

lemma round_half_even_div_nearest:
  assumes "0 < d"
  shows "2 * \<bar>int (round_half_even_div n d * d) - int n\<bar> \<le> int d"
proof -
  have n: "n = (n div d) * d + n mod d" by simp
  have r: "n mod d < d" using assms by simp
  define q where "q = n div d"
  define r where "r = n mod d"
  have n': "int n = int q * int d + int r" using n q_def r_def by (metis of_nat_add of_nat_mult)
  have r': "r < d" using r r_def by simp
  show ?thesis
    unfolding round_half_even_div_def Let_def q_def [symmetric] r_def [symmetric]
    using n' r' by (auto simp: algebra_simps)
qed

lemma child_item_cases:
  "child_item (n, File sz) = (n, ascii ''File'', size_label sz)"
  "child_item (n, Dir r x ds) = (n @ ascii ''/'', ascii ''Directory'', ascii ''-'')"
  by (simp_all add: child_item_def)

lemma kind_File_neq_Directory: "ascii ''Directory'' \<noteq> ascii ''File''"
  by (simp add: ascii_def)

lemma kind_Parent_neq_File: "ascii ''Parent Directory'' \<noteq> ascii ''File''"
  by (simp add: ascii_def)

text \<open>
  C4, as amended. In the listing of a directory (one that the server may read and search,
  with room below \<open>PATH_MAX\<close> for the paths of its children, so that a listing is
  rendered), every file child has the entry
  \<open>(name, File, size_label size)\<close>, every directory child the entry \<open>(name/, Directory, -)\<close>,
  the parent link has the label \<open>-\<close>, and there are no other entries: an entry of kind
  \<open>File\<close> carries the label of a file child of that name, every other entry the label \<open>-\<close>.
  The label of an empty file is \<open>0 KB\<close>; the label of a file of \<open>size > 0\<close> bytes is the
  quotient \<open>size / 1024\<close>, as Python computes it in double precision, rounded to one decimal
  place and followed by \<open> KB\<close>; below \<open>2^53\<close> bytes the double quotient is the exact one.
\<close>

theorem listing_size_labels:
  assumes "wf_node root" and "stat root p = Inr (loc, Dir True True es)"
    and "children_fit p es"
  shows "(\<exists>items. collect_items root base p = Inr items \<and>
      (\<forall>n sz. (n, File sz) \<in> set es \<longrightarrow> (n, ascii ''File'', size_label sz) \<in> set items) \<and>
      (\<forall>n r x ds. (n, Dir r x ds) \<in> set es \<longrightarrow>
          (n @ ascii ''/'', ascii ''Directory'', ascii ''-'') \<in> set items) \<and>
      (p \<noteq> base \<longrightarrow> (ascii ''../'', ascii ''Parent Directory'', ascii ''-'') \<in> set items) \<and>
      (\<forall>(nm, kind, lbl) \<in> set items.
          if kind = ascii ''File'' then \<exists>sz. (nm, File sz) \<in> set es \<and> lbl = size_label sz
          else lbl = ascii ''-'')) \<and>
    size_label 0 = ascii ''0 KB'' \<and>
    (\<forall>sz > 0. size_label sz = spec_size_label (truediv_1024_num sz)) \<and>
    (\<forall>sz < 2 ^ 53. truediv_1024_num sz = sz)"
proof -
  let ?items = "(if p \<noteq> base then [parent_item] else []) @ map child_item (sort_key fst es)"
  have eq: "collect_items root base p = Inr ?items"
    using collect_items_eq [OF assms] .
  have files: "(n, ascii ''File'', size_label sz) \<in> set ?items" if "(n, File sz) \<in> set es" for n sz
  proof -
    have "child_item (n, File sz) \<in> child_item ` set es" using that by (rule imageI)
    then show ?thesis by (simp add: child_item_cases)
  qed
  have dirs: "(n @ ascii ''/'', ascii ''Directory'', ascii ''-'') \<in> set ?items"
    if "(n, Dir r x ds) \<in> set es" for n r x ds
  proof -
    have "child_item (n, Dir r x ds) \<in> child_item ` set es" using that by (rule imageI)
    then show ?thesis by (simp add: child_item_cases)
  qed
  have parent: "p \<noteq> base \<longrightarrow> (ascii ''../'', ascii ''Parent Directory'', ascii ''-'') \<in> set ?items"
    by (simp add: parent_item_def)
  have conv: "if kind = ascii ''File'' then \<exists>sz. (nm, File sz) \<in> set es \<and> lbl = size_label sz
              else lbl = ascii ''-''"
    if "(nm, kind, lbl) \<in> set ?items" for nm kind lbl
  proof (cases "(nm, kind, lbl) = parent_item")
    case True
    then show ?thesis using kind_Parent_neq_File by (simp add: parent_item_def)
  next
    case False
    with that obtain n c where e: "(n, c) \<in> set es" and it: "(nm, kind, lbl) = child_item (n, c)"
      by (auto split: if_splits)
    show ?thesis
    proof (cases c)
      case (File sz)
      with e it show ?thesis by (auto simp: child_item_cases)
    next
      case (Dir r x ds)
      with e it show ?thesis using kind_File_neq_Directory by (simp add: child_item_cases)
    qed
  qed
  have first: "\<exists>items. collect_items root base p = Inr items \<and>
      (\<forall>n sz. (n, File sz) \<in> set es \<longrightarrow> (n, ascii ''File'', size_label sz) \<in> set items) \<and>
      (\<forall>n r x ds. (n, Dir r x ds) \<in> set es \<longrightarrow>
          (n @ ascii ''/'', ascii ''Directory'', ascii ''-'') \<in> set items) \<and>
      (p \<noteq> base \<longrightarrow> (ascii ''../'', ascii ''Parent Directory'', ascii ''-'') \<in> set items) \<and>
      (\<forall>(nm, kind, lbl) \<in> set items.
          if kind = ascii ''File'' then \<exists>sz. (nm, File sz) \<in> set es \<and> lbl = size_label sz
          else lbl = ascii ''-'')"
    using eq files dirs parent conv by blast
  have zero: "size_label 0 = ascii ''0 KB''" by (simp add: size_label_def)
  show ?thesis using first zero size_label_pos truediv_1024_exact by blast
qed

lemma size_label_0: "size_label 0 = ascii ''0 KB''"
  by (simp add: size_label_def)

lemma size_label_2048: "size_label 2048 = ascii ''2.0 KB''"
  by (simp add: size_label_pos truediv_1024_exact spec_size_label_def
      round_half_even_div_def str_nat_digit)

lemma wf_spec_example_dir: "wf_node spec_example_dir"
  by (simp add: spec_example_dir_def fs_eval)

lemma fit_spec_example_dir:
  "children_fit []
     [(ascii ''sub'', Dir True True []), (ascii ''b.txt'', File 2048), (ascii ''a.txt'', File 0)]"
  by (simp add: fs_eval)

lemma stat_spec_example_dir:
  "stat spec_example_dir [] = Inr ([], Dir True True [(ascii ''sub'', Dir True True []), (ascii ''b.txt'', File 2048), (ascii ''a.txt'', File 0)])"
  by (simp add: spec_example_dir_def stat_root)

theorem listing_size_labels_witness:
  "wf_node spec_example_dir \<and>
   stat spec_example_dir [] =
     Inr ([], Dir True True [(ascii ''sub'', Dir True True []), (ascii ''b.txt'', File 2048), (ascii ''a.txt'', File 0)]) \<and>
   (\<exists>items. collect_items spec_example_dir [] [] = Inr items \<and>
      (ascii ''a.txt'', ascii ''File'', ascii ''0 KB'') \<in> set items \<and>
      (ascii ''b.txt'', ascii ''File'', spec_size_label 2048) \<in> set items \<and>
      (ascii ''sub/'', ascii ''Directory'', ascii ''-'') \<in> set items)"
proof -
  let ?es = "[(ascii ''sub'', Dir True True []), (ascii ''b.txt'', File 2048), (ascii ''a.txt'', File 0)]"
  note th = listing_size_labels [OF wf_spec_example_dir stat_spec_example_dir fit_spec_example_dir,
      of "[]"]
  from th obtain items where items: "collect_items spec_example_dir [] [] = Inr items"
    and files: "\<forall>n sz. (n, File sz) \<in> set ?es \<longrightarrow> (n, ascii ''File'', size_label sz) \<in> set items"
    and dirs: "\<forall>n r x ds. (n, Dir r x ds) \<in> set ?es \<longrightarrow>
          (n @ ascii ''/'', ascii ''Directory'', ascii ''-'') \<in> set items"
    by blast
  from th have zero: "size_label 0 = ascii ''0 KB''"
    and pos: "\<forall>sz > 0. size_label sz = spec_size_label (truediv_1024_num sz)"
    and exact: "\<forall>sz < 2 ^ 53. truediv_1024_num sz = sz" by blast+
  have a: "(ascii ''a.txt'', ascii ''File'', ascii ''0 KB'') \<in> set items"
    using files [rule_format, of "ascii ''a.txt''" 0] zero by simp
  have "size_label 2048 = spec_size_label 2048"
    using pos [rule_format, of 2048] exact [rule_format, of 2048] by simp
  then have b: "(ascii ''b.txt'', ascii ''File'', spec_size_label 2048) \<in> set items"
    using files [rule_format, of "ascii ''b.txt''" 2048] by simp
  have c: "(ascii ''sub/'', ascii ''Directory'', ascii ''-'') \<in> set items"
    using dirs [rule_format, of "ascii ''sub''" True True "[]"] by (simp add: ascii_def)
  show ?thesis using wf_spec_example_dir stat_spec_example_dir items a b c by blast
qed

text \<open>
  C4 as stated fails on the spec's own example: the empty file \<open>a.txt\<close> is listed with the
  label \<open>0 KB\<close>, not \<open>0.0 KB\<close>.
\<close>

theorem zero_byte_label_counterexample:
  "collect_items spec_example_dir [] [] =
     Inr [(ascii ''a.txt'', ascii ''File'', ascii ''0 KB''),
          (ascii ''b.txt'', ascii ''File'', ascii ''2.0 KB''),
          (ascii ''sub/'', ascii ''Directory'', ascii ''-'')] \<and>
   size_label 0 \<noteq> ascii ''0.0 KB''"
proof -
  have "size_label 0 \<noteq> ascii ''0.0 KB''" by (simp add: size_label_0)
  moreover have "collect_items spec_example_dir [] [] =
     Inr (map child_item (sort_key fst
       [(ascii ''sub'', Dir True True []), (ascii ''b.txt'', File 2048), (ascii ''a.txt'', File 0)]))"
    using collect_items_eq [OF wf_spec_example_dir stat_spec_example_dir fit_spec_example_dir,
        of "[]"]
    by simp
  then have "collect_items spec_example_dir [] [] =
     Inr [(ascii ''a.txt'', ascii ''File'', ascii ''0 KB''),
          (ascii ''b.txt'', ascii ''File'', ascii ''2.0 KB''),
          (ascii ''sub/'', ascii ''Directory'', ascii ''-'')]"
    by (simp add: child_item_def size_label_2048 size_label_0)
  ultimately show ?thesis by blast
qed

section \<open>The entries of a listing\<close>

lemma wf_example_root: "wf_node example_root"
  by (simp add: example_root_def example_srv_def example_www_def fs_eval)

lemma fit_example_www: "children_fit example_base example_www"
  by (simp add: example_base_def example_www_def fs_eval)

lemma fit_example_empty: "children_fit (example_base @ [ascii ''empty'']) []"
  by (simp add: children_fit_def)

lemma stat_example_base: "stat example_root example_base = Inr (example_base, Dir True True example_www)"
  by (simp add: stat_def example_root_def example_base_def example_srv_def step_seg_def cur_def
      location_def fs_eval)

lemma stat_example_empty:
  "stat example_root (example_base @ [ascii ''empty'']) =
     Inr (example_base @ [ascii ''empty''], Dir True True [])"
  by (simp add: stat_def example_root_def example_base_def example_srv_def example_www_def
      step_seg_def cur_def location_def fs_eval)

lemma distinct_map_sort_key: "distinct (map f (sort_key g xs)) = distinct (map f xs)"
  by (simp add: distinct_map)

lemma child_item_unfold:
  "child_item =
     (\<lambda>(n, c). case c of
        Dir _ _ _ \<Rightarrow> (n @ ascii ''/'', ascii ''Directory'', ascii ''-'')
      | File sz \<Rightarrow> (n, ascii ''File'', size_label sz))"
  by (rule ext) (simp add: child_item_def case_prod_unfold split: node.split)

text \<open>
  C6. In the listing of a directory (one that the server may read and search, with room
  below \<open>PATH_MAX\<close> for the paths of its children, so that a listing is rendered) the
  children follow the optional parent link in strictly
  ascending order of their names (the order of Python strings: by code point, hence
  case-sensitive), each child of the one enumeration exactly once; a directory child is shown
  as its name followed by \<open>/\<close> with the label \<open>-\<close>, a file child as its name.
\<close>

theorem listing_children_sorted:
  assumes "wf_node root" and "stat root p = Inr (loc, Dir True True es)"
    and "children_fit p es"
  shows "\<exists>kids. set kids = set es \<and> length kids = length es \<and>
           sorted_wrt (<) (map fst kids) \<and>
           collect_items root base p =
             Inr ((if p \<noteq> base then [parent_item] else []) @
                  map (\<lambda>(n, c). case c of
                          Dir _ _ _ \<Rightarrow> (n @ ascii ''/'', ascii ''Directory'', ascii ''-'')
                        | File sz \<Rightarrow> (n, ascii ''File'', size_label sz)) kids)"
proof -
  have "wf_node (Dir True True es)" using stat_wf [OF assms(1,2)] .
  then have d: "distinct (map fst es)" by simp
  have "sorted (map fst (sort_key fst es))" by (rule sorted_sort_key)
  moreover have "distinct (map fst (sort_key fst es))" using d by (simp add: distinct_map_sort_key)
  ultimately have s: "sorted_wrt (<) (map fst (sort_key fst es))"
    by (simp add: strict_sorted_iff)
  have "set (sort_key fst es) = set es" "length (sort_key fst es) = length es" by simp_all
  moreover note s
  moreover have "collect_items root base p =
             Inr ((if p \<noteq> base then [parent_item] else []) @
                  map (\<lambda>(n, c). case c of
                          Dir _ _ _ \<Rightarrow> (n @ ascii ''/'', ascii ''Directory'', ascii ''-'')
                        | File sz \<Rightarrow> (n, ascii ''File'', size_label sz)) (sort_key fst es))"
    using collect_items_eq [OF assms, of base] by (simp only: child_item_unfold)
  ultimately show ?thesis by blast
qed

theorem listing_children_sorted_witness:
  "wf_node example_root \<and>
   stat example_root example_base = Inr (example_base, Dir True True example_www) \<and>
   collect_items example_root example_base example_base =
     Inr [(ascii ''empty/'', ascii ''Directory'', ascii ''-''),
          (ascii ''index.html'', ascii ''File'', ascii ''0.0 KB'')]"
proof -
  from listing_children_sorted [OF wf_example_root stat_example_base fit_example_www,
      of example_base]
  obtain kids where k: "set kids = set example_www" "length kids = length example_www"
    "sorted_wrt (<) (map fst kids)"
    and c: "collect_items example_root example_base example_base =
             Inr (map (\<lambda>(n, c). case c of
                          Dir _ _ _ \<Rightarrow> (n @ ascii ''/'', ascii ''Directory'', ascii ''-'')
                        | File sz \<Rightarrow> (n, ascii ''File'', size_label sz)) kids)"
    by auto
  from k(2) obtain a b where ab: "kids = [a, b]"
    by (auto simp: example_www_def length_Suc_conv)
  with k(1) have "(a = (ascii ''index.html'', File 10) \<and> b = (ascii ''empty'', Dir True True [])) \<or>
                  (b = (ascii ''index.html'', File 10) \<and> a = (ascii ''empty'', Dir True True []))"
    by (auto simp: example_www_def doubleton_eq_iff)
  with k(3) ab have "kids = [(ascii ''empty'', Dir True True []), (ascii ''index.html'', File 10)]"
    by auto
  moreover have "size_label 10 = ascii ''0.0 KB''"
    by (simp add: size_label_pos truediv_1024_exact spec_size_label_def
      round_half_even_div_def str_nat_digit)
  ultimately show ?thesis using c wf_example_root stat_example_base by simp
qed

lemma child_item_not_parent:
  assumes "valid_name n"
  shows "fst (child_item (n, c)) \<noteq> ascii ''../''"
proof (cases c)
  case (File sz)
  have "47 \<in> set (ascii ''../'')" by simp
  with assms have "n \<noteq> ascii ''../''" unfolding valid_name_def by metis
  with File show ?thesis by (simp add: child_item_def)
next
  case (Dir r x ds)
  have "n \<noteq> ascii ''..''" using assms by (simp add: valid_name_def)
  then have "n @ ascii ''/'' \<noteq> ascii ''..'' @ ascii ''/''" by simp
  with Dir show ?thesis by (simp add: child_item_def)
qed

text \<open>
  The parent link follows the comparison of paths, as \<open>pathlib\<close> compares them, part by
  part: the listing starts with \<open>../\<close>, labelled \<open>-\<close>, when the path of the directory
  is not \<open>self.base_path\<close>, and no other entry is displayed as \<open>../\<close>; the listing made
  for the path \<open>self.base_path\<close> has no entry displayed as \<open>../\<close>.
\<close>

lemma parent_link_by_path:
  assumes "wf_node root" and "stat root p = Inr (loc, Dir True True es)"
    and "children_fit p es"
  shows "\<exists>items. collect_items root base p = Inr items \<and>
     (p \<noteq> base \<longrightarrow>
        items \<noteq> [] \<and> hd items = (ascii ''../'', ascii ''Parent Directory'', ascii ''-'') \<and>
        (\<forall>it \<in> set (tl items). fst it \<noteq> ascii ''../'')) \<and>
     (p = base \<longrightarrow> (\<forall>it \<in> set items. fst it \<noteq> ascii ''../''))"
proof -
  have wf: "wf_node (Dir True True es)" using stat_wf [OF assms(1,2)] .
  have kids: "fst it \<noteq> ascii ''../''" if "it \<in> set (map child_item (sort_key fst es))" for it
  proof -
    from that obtain n c where e: "(n, c) \<in> set es" and it: "it = child_item (n, c)" by auto
    from wf e have "valid_name n" by auto
    then show ?thesis using it child_item_not_parent by blast
  qed
  show ?thesis
    using collect_items_eq [OF assms, of base] kids by (auto simp: parent_item_def)
qed

section \<open>The list items of the document\<close>

lemma join_contains: "x \<in> set xs \<Longrightarrow> \<exists>pre post. join sep xs = pre @ x @ post"
proof (induction sep xs rule: join.induct)
  case (1 sep)
  then show ?case by simp
next
  case (2 sep y)
  then have "join sep [y] = [] @ x @ []" by simp
  then show ?case by blast
next
  case (3 sep y z zs)
  show ?case
  proof (cases "x = y")
    case True
    then have "join sep (y # z # zs) = [] @ x @ (sep @ join sep (z # zs))" by simp
    then show ?thesis by blast
  next
    case False
    with 3 obtain pre post where "join sep (z # zs) = pre @ x @ post" by auto
    then have "join sep (y # z # zs) = (y @ sep @ pre) @ x @ post" by simp
    then show ?thesis by blast
  qed
qed

lemma html_document_contains:
  assumes "items_html = pre @ x @ post"
  shows "\<exists>pre' post'. html_document title now items_html = pre' @ x @ post'"
proof -
  obtain a b where "html_document title now items_html = a @ items_html @ b"
    unfolding html_document_def by (metis append.assoc)
  then have "html_document title now items_html = (a @ pre) @ x @ (post @ b)"
    using assms by simp
  then show ?thesis by blast
qed

text \<open>
  C8. A list item is the hyperlink whose \<open>href\<close> attribute and whose text are both the
  display name of the entry, character for character (nothing is escaped or encoded),
  followed by the size label; and the document of a listing contains the list item of each
  of its entries.
\<close>

theorem list_item_link:
  \<open>render_item (nm, kind, lbl) =
     ascii ''<li class="file-item"><a href="'' @ nm @ ascii ''">'' @ nm @
     ascii ''</a><span class="file-size">'' @ lbl @ ascii ''</span></li>'' \<and>
   (\<forall>it \<in> set its. \<exists>pre post. listing_html w p its = pre @ render_item it @ post)\<close>
proof -
  have a: \<open>render_item (nm, kind, lbl) =
     ascii ''<li class="file-item"><a href="'' @ nm @ ascii ''">'' @ nm @
     ascii ''</a><span class="file-size">'' @ lbl @ ascii ''</span></li>''\<close>
    by (simp add: render_item_def)
  have b: "\<exists>pre post. listing_html w p its = pre @ render_item it @ post" if "it \<in> set its" for it
  proof -
    have "render_item it \<in> set (map render_item its)" using that by simp
    from join_contains [OF this]
    obtain pre post where "file_items its = pre @ render_item it @ post"
      unfolding file_items_def by blast
    from html_document_contains [OF this] show ?thesis
      unfolding listing_html_def by blast
  qed
  show ?thesis using a b by blast
qed

theorem list_item_link_witness:
  \<open>render_item (ascii ''../'', ascii ''Parent Directory'', ascii ''-'') =
     ascii ''<li class="file-item"><a href="../">../</a><span class="file-size">-</span></li>'' \<and>
   (\<exists>pre post.
      listing_html example_world (example_base @ [ascii ''empty''])
        [(ascii ''../'', ascii ''Parent Directory'', ascii ''-'')] =
      pre @
      ascii ''<li class="file-item"><a href="../">../</a><span class="file-size">-</span></li>'' @
      post)\<close>
proof -
  note th = list_item_link [of "ascii ''../''" "ascii ''Parent Directory''" "ascii ''-''"
      "[(ascii ''../'', ascii ''Parent Directory'', ascii ''-'')]" example_world
      "example_base @ [ascii ''empty'']"]
  have a: \<open>render_item (ascii ''../'', ascii ''Parent Directory'', ascii ''-'') =
     ascii ''<li class="file-item"><a href="../">../</a><span class="file-size">-</span></li>''\<close>
    using th [THEN conjunct1] by simp
  have "\<exists>pre post.
      listing_html example_world (example_base @ [ascii ''empty''])
        [(ascii ''../'', ascii ''Parent Directory'', ascii ''-'')] =
      pre @ render_item (ascii ''../'', ascii ''Parent Directory'', ascii ''-'') @ post"
    by (rule th [THEN conjunct2, THEN bspec]) (rule list.set_intros)
  then show ?thesis unfolding a using a by blast
qed

section \<open>The request path\<close>

lemma split_sep_not_Nil: "split_sep sep s \<noteq> []"
  by (induction s) (auto split: list.splits)

lemma join_Cons: "ps \<noteq> [] \<Longrightarrow> join sep (p # ps) = p @ sep @ join sep ps"
  by (cases ps) simp_all

lemma join_split_sep: "join [sep] (split_sep sep s) = s"
proof (induction s)
  case Nil
  show ?case by simp
next
  case (Cons c cs)
  obtain q qs where q: "split_sep sep cs = q # qs"
    using split_sep_not_Nil [of sep cs] by (cases "split_sep sep cs") auto
  show ?case
  proof (cases "c = sep")
    case True
    then show ?thesis using Cons by (simp add: join_Cons split_sep_not_Nil)
  next
    case False
    have "join [sep] ((c # q) # qs) = c # join [sep] (q # qs)" by (cases qs) simp_all
    then show ?thesis using False q Cons by simp
  qed
qed

lemma split_sep_single: "sep \<notin> set s \<Longrightarrow> split_sep sep s = [s]"
  by (induction s) auto

lemma split_sep_hd_prefix: "split_sep sep s = q # qs \<Longrightarrow> \<exists>post. s = q @ post"
proof (induction s arbitrary: q qs)
  case Nil
  then show ?case by simp
next
  case (Cons c cs)
  obtain q' qs' where q': "split_sep sep cs = q' # qs'"
    using split_sep_not_Nil [of sep cs] by (cases "split_sep sep cs") auto
  show ?case
  proof (cases "c = sep")
    case True
    with Cons.prems have "q = []" by simp
    then show ?thesis by simp
  next
    case False
    with Cons.prems q' have q: "q = c # q'" by simp
    from Cons.IH [OF q'] obtain post where "cs = q' @ post" by blast
    with q have "c # cs = q @ post" by simp
    then show ?thesis by blast
  qed
qed

lemma split_sep_part_sublist:
  "part \<in> set (split_sep sep s) \<Longrightarrow> \<exists>pre post. s = pre @ part @ post"
proof (induction s arbitrary: part)
  case Nil
  then have "[] = [] @ part @ []" by simp
  then show ?case by blast
next
  case (Cons c cs)
  obtain q qs where q: "split_sep sep cs = q # qs"
    using split_sep_not_Nil [of sep cs] by (cases "split_sep sep cs") auto
  show ?case
  proof (cases "c = sep")
    case True
    with Cons.prems have "part = [] \<or> part \<in> set (split_sep sep cs)" by auto
    then show ?thesis
    proof
      assume "part = []"
      then have "c # cs = [] @ part @ (c # cs)" by simp
      then show ?thesis by blast
    next
      assume "part \<in> set (split_sep sep cs)"
      from Cons.IH [OF this] obtain pre post where "cs = pre @ part @ post" by blast
      then have "c # cs = (c # pre) @ part @ post" by simp
      then show ?thesis by blast
    qed
  next
    case False
    with Cons.prems q have "part = c # q \<or> part \<in> set qs" by auto
    then show ?thesis
    proof
      assume p: "part = c # q"
      from split_sep_hd_prefix [OF q] obtain post where "cs = q @ post" by blast
      with p have "c # cs = [] @ part @ post" by simp
      then show ?thesis by blast
    next
      assume "part \<in> set qs"
      then have "part \<in> set (split_sep sep cs)" using q by simp
      from Cons.IH [OF this] obtain pre post where "cs = pre @ part @ post" by blast
      then have "c # cs = (c # pre) @ part @ post" by simp
      then show ?thesis by blast
    qed
  qed
qed

lemma stat_base_child:
  assumes "stat root base = Inr (loc, Dir r True es)"
    and "s \<noteq> ascii ''..''" and "s \<noteq> ascii ''.''"
  shows "stat root (base @ [s]) =
           (if \<not> os_name_ok s then Inl ValueError
            else if PATH_MAX \<le> path_bytes (base @ [s]) \<or> NAME_MAX < fs_bytes s
              then Inl (OSError ENAMETOOLONG)
            else (case map_of es s of
                    None \<Rightarrow> Inl (OSError ENOENT)
                  | Some c \<Rightarrow> Inr (loc @ [s], c)))"
proof -
  from stat_InrD [OF assms(1)] obtain t where ok: "list_all os_name_ok base"
    and t: "walk root [] base = Inr t" and loc: "loc = location t"
    and cu: "cur root t = Dir r True es"
    by auto
  have "walk root [] (base @ [s]) =
          (if NAME_MAX < fs_bytes s then Inl ENAMETOOLONG
           else (case map_of es s of None \<Rightarrow> Inl ENOENT | Some c \<Rightarrow> Inr ((s, c) # t)))"
    using t cu assms(2,3)
    by (simp add: walk_append step_seg_def split: option.splits del: ascii_simps)
  then show ?thesis
    using ok loc
    by (simp add: stat_def location_def cur_def split: option.splits del: ascii_simps)
qed

lemma send_directory_listing_not_404:
  "send_directory_listing w p \<noteq> [SendError 404 msg None]"
  by (simp add: send_directory_listing_def Let_def split: sum.splits option.splits)

text \<open>
  The answer to a request of one part, other than \<open>.\<close> and \<open>..\<close>, when the base
  directory can be searched.
\<close>

lemma single_part_request:
  assumes "raw \<noteq> ascii ''/tcpstates''" and "wf_node (fs w)"
    and "stat (fs w) (base_path w) = Inr (loc, Dir r True es)"
    and "47 \<notin> set (lstrip_slash raw)" and "lstrip_slash raw \<noteq> []"
    and "lstrip_slash raw \<noteq> ascii ''.''" and "lstrip_slash raw \<noteq> ascii ''..''"
  shows "request_path (base_path w) raw = base_path w @ [lstrip_slash raw]"
    and "os_name_ok (lstrip_slash raw) \<Longrightarrow>
         PATH_MAX \<le> path_bytes (base_path w @ [lstrip_slash raw]) \<or>
           NAME_MAX < fs_bytes (lstrip_slash raw) \<Longrightarrow>
         do_GET w raw = [SendError 500 (ascii ''Server error: '') (Some (OSError ENAMETOOLONG))]"
    and "\<not> (os_name_ok (lstrip_slash raw) \<and>
            (PATH_MAX \<le> path_bytes (base_path w @ [lstrip_slash raw]) \<or>
             NAME_MAX < fs_bytes (lstrip_slash raw))) \<Longrightarrow>
         (do_GET w raw = [SendError 404 (ascii ''Not Found'') None]) =
           (lstrip_slash raw \<notin> fst ` set es)"
proof -
  let ?s = "lstrip_slash raw"
  have sp: "split_sep 47 ?s = [?s]" using assms(4) by (rule split_sep_single)
  show p: "request_path (base_path w) raw = base_path w @ [?s]"
    using assms(5,6) by (simp add: request_path_def joinpath_def parse_parts_def sp)
  note st = stat_base_child [OF assms(3) assms(7) assms(6)]
  show "do_GET w raw = [SendError 500 (ascii ''Server error: '') (Some (OSError ENAMETOOLONG))]"
    if "os_name_ok ?s"
      and "PATH_MAX \<le> path_bytes (base_path w @ [?s]) \<or> NAME_MAX < fs_bytes ?s"
    using that assms(1) p st
    by (simp add: do_GET_def handle_file_or_dir_def exists_def ignore_error_def Let_def
        del: ascii_simps)
  show "(do_GET w raw = [SendError 404 (ascii ''Not Found'') None]) = (?s \<notin> fst ` set es)"
    if n: "\<not> (os_name_ok ?s \<and>
            (PATH_MAX \<le> path_bytes (base_path w @ [?s]) \<or> NAME_MAX < fs_bytes ?s))"
  proof (cases "os_name_ok ?s")
    case False
    have "wf_node (Dir r True es)" using stat_wf [OF assms(2,3)] .
    then have "\<forall>n \<in> fst ` set es. valid_name n" by auto
    with False have "?s \<notin> fst ` set es" using valid_name_facts(3) by blast
    moreover have "do_GET w raw = [SendError 404 (ascii ''Not Found'') None]"
      using False assms(1) p st
      by (simp add: do_GET_def handle_file_or_dir_def exists_def Let_def del: ascii_simps)
    ultimately show ?thesis by simp
  next
    case True
    with n have fit: "\<not> PATH_MAX \<le> path_bytes (base_path w @ [?s])" "\<not> NAME_MAX < fs_bytes ?s"
      by simp_all
    show ?thesis
    proof (cases "map_of es ?s")
      case None
      then have "?s \<notin> fst ` set es" by (simp add: map_of_eq_None_iff)
      moreover have "do_GET w raw = [SendError 404 (ascii ''Not Found'') None]"
        using True fit None assms(1) p st
        by (simp add: do_GET_def handle_file_or_dir_def exists_def ignore_error_def Let_def
            del: ascii_simps)
      ultimately show ?thesis by simp
    next
      case (Some c)
      then have "?s \<in> fst ` set es" by (metis map_of_eq_None_iff option.distinct(1))
      moreover have "do_GET w raw \<noteq> [SendError 404 (ascii ''Not Found'') None]"
        using True fit Some assms(1) p st send_directory_listing_not_404
        by (cases c)
          (simp_all add: do_GET_def handle_file_or_dir_def exists_def is_dir_def Let_def
            del: ascii_simps)
      ultimately show ?thesis by simp
    qed
  qed
qed

text \<open>
  C9, as amended. The path looked up is \<open>self.base_path\<close> followed by the parts of the raw
  request target without its leading slashes: what lies between the slashes, except empty
  parts and \<open>.\<close>. Joined by \<open>/\<close>, the parts before this filter give back the target,
  and every part is a piece of the target as it was sent: no character is decoded or dropped,
  \<open>%\<close> escapes and query string included. Hence a target of one part other than \<open>.\<close>
  and \<open>..\<close> is looked up under exactly that name in a base directory that can be searched:
  when the name has more than \<open>NAME_MAX\<close> bytes, or the path \<open>PATH_MAX\<close> bytes or more,
  \<open>path.exists()\<close> raises \<open>OSError\<close> and the answer is 500; otherwise the answer is 404
  exactly when the base directory has no child of that name.
\<close>

theorem raw_path_joined_literally:
  "request_path (base_path w) raw =
     base_path w @
       filter (\<lambda>part. part \<noteq> [] \<and> part \<noteq> ascii ''.'') (split_sep 47 (lstrip_slash raw)) \<and>
   join (ascii ''/'') (split_sep 47 (lstrip_slash raw)) = lstrip_slash raw \<and>
   (\<forall>part \<in> set (parse_parts (lstrip_slash raw)).
      \<exists>pre post. lstrip_slash raw = pre @ part @ post) \<and>
   (raw \<noteq> ascii ''/tcpstates'' \<and> wf_node (fs w) \<and>
    stat (fs w) (base_path w) = Inr (loc, Dir r True es) \<and>
    47 \<notin> set (lstrip_slash raw) \<and> lstrip_slash raw \<noteq> [] \<and>
    lstrip_slash raw \<noteq> ascii ''.'' \<and> lstrip_slash raw \<noteq> ascii ''..'' \<longrightarrow>
      request_path (base_path w) raw = base_path w @ [lstrip_slash raw] \<and>
      (os_name_ok (lstrip_slash raw) \<and>
       (PATH_MAX \<le> path_bytes (base_path w @ [lstrip_slash raw]) \<or>
        NAME_MAX < fs_bytes (lstrip_slash raw)) \<longrightarrow>
         do_GET w raw =
           [SendError 500 (ascii ''Server error: '') (Some (OSError ENAMETOOLONG))]) \<and>
      (\<not> (os_name_ok (lstrip_slash raw) \<and>
           (PATH_MAX \<le> path_bytes (base_path w @ [lstrip_slash raw]) \<or>
            NAME_MAX < fs_bytes (lstrip_slash raw))) \<longrightarrow>
         (do_GET w raw = [SendError 404 (ascii ''Not Found'') None]) =
           (lstrip_slash raw \<notin> fst ` set es)))"
proof -
  have a: "request_path (base_path w) raw =
     base_path w @
       filter (\<lambda>part. part \<noteq> [] \<and> part \<noteq> ascii ''.'') (split_sep 47 (lstrip_slash raw))"
    by (simp only: request_path_def joinpath_def parse_parts_def)
  have b: "join (ascii ''/'') (split_sep 47 (lstrip_slash raw)) = lstrip_slash raw"
    using join_split_sep [of 47 "lstrip_slash raw"] by simp
  have c: "\<forall>part \<in> set (parse_parts (lstrip_slash raw)).
      \<exists>pre post. lstrip_slash raw = pre @ part @ post"
    using split_sep_part_sublist [of _ 47 "lstrip_slash raw"]
    by (simp add: parse_parts_def del: ascii_simps)
  note d = single_part_request [of raw w loc r es]
  show ?thesis using a b c d by blast
qed

theorem raw_path_joined_literally_witness:
  "ascii ''/a%20b'' \<noteq> ascii ''/tcpstates'' \<and> wf_node (fs space_world) \<and>
   stat (fs space_world) (base_path space_world) =
     Inr ([], Dir True True [(ascii ''a b'', File 3)]) \<and>
   lstrip_slash (ascii ''/a%20b'') = ascii ''a%20b'' \<and>
   request_path (base_path space_world) (ascii ''/a%20b'') = [ascii ''a%20b''] \<and>
   do_GET space_world (ascii ''/a%20b'') = [SendError 404 (ascii ''Not Found'') None] \<and>
   do_GET space_world (ascii ''/a b'') = [SuperDoGET]"
proof -
  let ?raw = "ascii ''/a%20b''"
  have h1: "?raw \<noteq> ascii ''/tcpstates''" by simp
  have h2: "wf_node (fs space_world)" by (simp add: space_world_def fs_eval)
  have h3: "stat (fs space_world) (base_path space_world) =
              Inr ([], Dir True True [(ascii ''a b'', File 3)])"
    by (simp add: space_world_def stat_root)
  have h4: "lstrip_slash ?raw = ascii ''a%20b''" by (simp add: lstrip_slash_def)
  have h5: "47 \<notin> set (lstrip_slash ?raw)" "lstrip_slash ?raw \<noteq> []"
    "lstrip_slash ?raw \<noteq> ascii ''.''" "lstrip_slash ?raw \<noteq> ascii ''..''"
    by (simp_all add: lstrip_slash_def)
  have h6: "\<not> (os_name_ok (lstrip_slash ?raw) \<and>
           (PATH_MAX \<le> path_bytes (base_path space_world @ [lstrip_slash ?raw]) \<or>
            NAME_MAX < fs_bytes (lstrip_slash ?raw)))"
    by (simp add: lstrip_slash_def space_world_def fs_eval)
  have n: "lstrip_slash ?raw \<notin> fst ` set [(ascii ''a b'', File 3)]"
    by (simp add: lstrip_slash_def)
  from raw_path_joined_literally
      [of space_world ?raw "[]" True "[(ascii ''a b'', File 3)]"]
    h1 h2 h3 h5 h6 n
  have "request_path (base_path space_world) ?raw =
          base_path space_world @ [lstrip_slash ?raw]"
    and "do_GET space_world ?raw = [SendError 404 (ascii ''Not Found'') None]"
    by blast+
  moreover have "do_GET space_world (ascii ''/a b'') = [SuperDoGET]"
    by (simp add: do_GET_def handle_file_or_dir_def request_path_def joinpath_def parse_parts_def
        lstrip_slash_def space_world_def exists_def is_dir_def stat_def step_seg_def cur_def
        fs_eval)
  ultimately show ?thesis using h1 h2 h3 h4 by (simp add: space_world_def)
qed

lemma concat_replicate_facts:
  "set (concat (replicate n s)) \<subseteq> set s"
  "length (concat (replicate n s)) = n * length s"
  "fs_bytes (concat (replicate n s)) = n * fs_bytes s"
  "os_name_ok s \<Longrightarrow> os_name_ok (concat (replicate n s))"
  by (induction n) (auto simp: fs_bytes_def os_name_ok_def)

lemma length_neq: "length xs \<noteq> length ys \<Longrightarrow> xs \<noteq> ys"
  by auto

lemma lstrip_slash_one: "47 \<notin> set s \<Longrightarrow> lstrip_slash (47 # s) = s"
  by (cases s) (simp_all add: lstrip_slash_def)

lemma long_name_facts:
  "valid_name long_name"
  "47 \<notin> set long_name_encoded" "length long_name_encoded = 320"
  "os_name_ok long_name_encoded" "fs_bytes long_name_encoded = 320"
proof -
  have l: "length long_name = 192"
    by (simp add: long_name_def concat_replicate_facts)
  have "fs_bytes (ascii ''a b'') = 3" by (simp add: fs_bytes_def fs_bytes_char_def)
  then have b: "fs_bytes long_name = 192"
    by (simp add: long_name_def concat_replicate_facts)
  have s: "set long_name \<subseteq> set (ascii ''a b'')"
    unfolding long_name_def by (rule concat_replicate_facts)
  have o: "os_name_ok long_name"
    unfolding long_name_def
    by (rule concat_replicate_facts) (simp add: os_name_ok_def os_char_ok_def)
  have "long_name \<noteq> []" "long_name \<noteq> ascii ''.''" "long_name \<noteq> ascii ''..''"
    by (rule length_neq, simp add: l)+
  moreover have "47 \<notin> set long_name" using s by auto
  ultimately show "valid_name long_name"
    using o b by (simp add: valid_name_def NAME_MAX_def del: ascii_simps)
  have "set long_name_encoded \<subseteq> set (ascii ''a%20b'')"
    unfolding long_name_encoded_def by (rule concat_replicate_facts)
  then show "47 \<notin> set long_name_encoded" by auto
  show "length long_name_encoded = 320"
    by (simp add: long_name_encoded_def concat_replicate_facts)
  show "os_name_ok long_name_encoded"
    unfolding long_name_encoded_def
    by (rule concat_replicate_facts) (simp add: os_name_ok_def os_char_ok_def)
  have "fs_bytes (ascii ''a%20b'') = 5" by (simp add: fs_bytes_def fs_bytes_char_def)
  then show "fs_bytes long_name_encoded = 320"
    by (simp add: long_name_encoded_def concat_replicate_facts)
qed

text \<open>
  C9 as stated fails where the encoded name is too long for the file system: the base
  directory holds the file whose name is \<open>a b\<close> written 64 times, and the request for its
  percent-encoded form, a name of 320 bytes, is not answered with 404: \<open>path.exists()\<close>
  raises \<open>OSError\<close> (\<open>ENAMETOOLONG\<close>) and \<open>do_GET\<close> answers 500.
\<close>

theorem percent_encoded_long_name_counterexample:
  "valid_name long_name \<and>
   fs long_world = Dir True True [(long_name, File 3)] \<and>
   base_path long_world = [] \<and>
   request_path (base_path long_world) (ascii ''/'' @ long_name_encoded) = [long_name_encoded] \<and>
   do_GET long_world (ascii ''/'' @ long_name_encoded) =
     [SendError 500 (ascii ''Server error: '') (Some (OSError ENAMETOOLONG))]"
proof -
  let ?raw = "ascii ''/'' @ long_name_encoded"
  note f = long_name_facts
  have ls: "lstrip_slash ?raw = long_name_encoded" using lstrip_slash_one [OF f(2)] by simp
  have h1: "?raw \<noteq> ascii ''/tcpstates''"
  proof
    assume "?raw = ascii ''/tcpstates''"
    then have "length ?raw = length (ascii ''/tcpstates'')" by (rule arg_cong)
    then show False using f(3) by simp
  qed
  have h2: "wf_node (fs long_world)" using f(1) by (simp add: long_world_def)
  have h3: "stat (fs long_world) (base_path long_world) =
              Inr ([], Dir True True [(long_name, File 3)])"
    by (simp add: long_world_def stat_root)
  have ne: "long_name_encoded \<noteq> []" "long_name_encoded \<noteq> ascii ''.''"
    "long_name_encoded \<noteq> ascii ''..''"
    by (rule length_neq, simp add: f(3))+
  note sp = single_part_request [of ?raw long_world "[]" True "[(long_name, File 3)]",
      unfolded ls, OF h1 h2 h3 f(2) ne]
  have "NAME_MAX < fs_bytes long_name_encoded" by (simp add: f(5) NAME_MAX_def)
  with sp(2) [OF f(4)]
  have "do_GET long_world ?raw =
     [SendError 500 (ascii ''Server error: '') (Some (OSError ENAMETOOLONG))]" by blast
  with sp(1) f(1) show ?thesis by (simp add: long_world_def)
qed

section \<open>The length of the document and the length of its encoding\<close>

lemma str_nat_value: "foldl (\<lambda>acc d. 10 * acc + (d - 48)) 0 (str_nat n) = n"
proof (induction n rule: str_nat.induct)
  case (1 n)
  show ?case
  proof (cases "n < 10")
    case True
    then show ?thesis by (simp add: str_nat.simps [of n])
  next
    case False
    with 1 show ?thesis by (simp add: str_nat.simps [of n])
  qed
qed

lemma str_nat_inject: "(str_nat m = str_nat n) = (m = n)"
  by (metis str_nat_value)

lemma utf8_char_length:
  assumes "utf8_char c = Some bs"
  shows "1 \<le> length bs \<and> (length bs = 1) = (c < 128)"
  using assms by (auto simp: utf8_char_def split: if_splits)

lemma utf8_encode_length:
  "utf8_encode s = Some b \<Longrightarrow> length s \<le> length b \<and> (length b = length s) = (\<forall>c \<in> set s. c < 128)"
proof (induction s arbitrary: b)
  case Nil
  then show ?case by simp
next
  case (Cons c cs)
  from Cons.prems obtain bs rest where c: "utf8_char c = Some bs"
    and r: "utf8_encode cs = Some rest" and b: "b = bs @ rest"
    by (auto split: option.splits)
  from Cons.IH [OF r] utf8_char_length [OF c] b show ?case by auto
qed

lemma utf8_encode_ascii: "\<forall>c \<in> set s. c < 128 \<Longrightarrow> utf8_encode s = Some s"
  by (induction s) (simp_all add: utf8_char_def)

text \<open>
  C10. When a listing is sent, the \<open>Content-Length\<close> header is the number of characters of
  the document, the body is the UTF-8 encoding of the document, which is never shorter, and
  the header is the number of bytes of the body exactly when every character of the document
  is encoded in one byte, that is, lies below U+0080.
\<close>

theorem listing_content_length:
  assumes "collect_items (fs w) (base_path w) p = Inr its"
    and "utf8_encode (listing_html w p its) = Some body"
  shows "send_directory_listing w p =
           [SendResponse 200,
            SendHeader (ascii ''Content-Type'') (ascii ''text/html''),
            SendHeader (ascii ''Content-Length'') (str_nat (length (listing_html w p its))),
            EndHeaders,
            Write body] \<and>
         length (listing_html w p its) \<le> length body \<and>
         (str_nat (length (listing_html w p its)) = str_nat (length body)) =
           (\<forall>c \<in> set (listing_html w p its). c < 128)"
proof -
  have "send_directory_listing w p =
           [SendResponse 200,
            SendHeader (ascii ''Content-Type'') (ascii ''text/html''),
            SendHeader (ascii ''Content-Length'') (str_nat (length (listing_html w p its))),
            EndHeaders,
            Write body]"
    using assms by (simp add: send_directory_listing_def Let_def del: ascii_simps)
  moreover from utf8_encode_length [OF assms(2)]
  have "length (listing_html w p its) \<le> length body"
    and "(length body = length (listing_html w p its)) = (\<forall>c \<in> set (listing_html w p its). c < 128)"
    by simp_all
  ultimately show ?thesis by (auto simp: str_nat_inject)
qed

lemma ascii_below_256: "\<forall>c \<in> set (ascii s). c < 256"
proof
  fix c assume "c \<in> set (ascii s)"
  then obtain ch where "c = of_char ch" by (auto simp: ascii_def)
  then show "c < 256" using of_char_mod_256 [of ch, where ?'a = nat, symmetric]
    by (metis mod_less_divisor zero_less_numeral)
qed

lemma DARK_THEME_below_256: "\<forall>c \<in> set DARK_THEME. c < 256"
  unfolding DARK_THEME_def by (rule ascii_below_256)

lemma html_document_below_256:
  assumes "\<forall>c \<in> set title. c < 256" and "\<forall>c \<in> set now. c < 256"
    and "\<forall>c \<in> set items_html. c < 256"
  shows "\<forall>c \<in> set (html_document title now items_html). c < 256"
  using assms DARK_THEME_below_256 ascii_below_256
  by (simp add: html_document_def ball_Un del: ascii_simps)

lemma utf8_encode_total: "\<forall>c \<in> set s. c < 256 \<Longrightarrow> \<exists>b. utf8_encode s = Some b"
  by (induction s) (auto simp: utf8_char_def)

lemma stat_example_world_empty:
  "stat (fs example_world) (base_path example_world @ [ascii ''empty'']) =
     Inr (example_base @ [ascii ''empty''], Dir True True [])"
  using stat_example_empty by (simp add: example_world_def)

lemma collect_items_example_empty:
  "collect_items (fs example_world) (base_path example_world)
     (base_path example_world @ [ascii ''empty'']) = Inr [parent_item]"
proof -
  have wf: "wf_node (fs example_world)" using wf_example_root by (simp add: example_world_def)
  have fit: "children_fit (base_path example_world @ [ascii ''empty'']) []"
    by (simp add: children_fit_def)
  from collect_items_eq [OF wf stat_example_world_empty fit, of "base_path example_world"]
  show ?thesis by simp
qed

lemma listing_example_empty_below_256:
  "\<forall>c \<in> set (listing_html example_world (base_path example_world @ [ascii ''empty''])
      [parent_item]). c < 256"
  unfolding listing_html_def
  by (rule html_document_below_256)
    (simp_all add: listing_title_def relative_to_str_def example_world_def example_base_def
      file_items_def render_item_def parent_item_def)

theorem listing_content_length_witness:
  "collect_items (fs example_world) (base_path example_world)
     (base_path example_world @ [ascii ''empty'']) = Inr [parent_item] \<and>
   (\<exists>body.
      utf8_encode (listing_html example_world (base_path example_world @ [ascii ''empty''])
        [parent_item]) = Some body \<and>
      send_directory_listing example_world (base_path example_world @ [ascii ''empty'']) =
        [SendResponse 200,
         SendHeader (ascii ''Content-Type'') (ascii ''text/html''),
         SendHeader (ascii ''Content-Length'')
           (str_nat (length (listing_html example_world
              (base_path example_world @ [ascii ''empty'']) [parent_item]))),
         EndHeaders,
         Write body] \<and>
      length (listing_html example_world (base_path example_world @ [ascii ''empty''])
        [parent_item]) \<le> length body)"
proof -
  from utf8_encode_total [OF listing_example_empty_below_256]
  obtain body where e:
    "utf8_encode (listing_html example_world (base_path example_world @ [ascii ''empty''])
        [parent_item]) = Some body" by blast
  from listing_content_length [OF collect_items_example_empty e]
  show ?thesis using collect_items_example_empty e by blast
qed

section \<open>The status endpoint\<close>

lemma hex_digit_ascii: "d < 16 \<Longrightarrow> hex_digit d < 128"
  by (simp add: hex_digit_def)

lemma hex4_ascii: "\<forall>d \<in> set (hex4 n). d < 128"
  by (simp add: hex4_def hex_digit_ascii)

lemma json_escape_char_ascii: "\<forall>d \<in> set (json_escape_char c). d < 128"
  using hex4_ascii by (simp add: json_escape_char_def Let_def ball_Un)

lemma json_string_ascii: "\<forall>d \<in> set (json_string s). d < 128"
  using json_escape_char_ascii by (simp add: json_string_def ball_Un)

lemma join_ascii:
  assumes "\<forall>c \<in> set sep. c < (128::nat)" and "\<forall>x \<in> set xs. \<forall>c \<in> set x. c < 128"
  shows "\<forall>c \<in> set (join sep xs). c < 128"
  using assms by (induction sep xs rule: join.induct) (simp_all add: ball_Un)

lemma json_dumps_api_payload:
  \<open>json_dumps (api_payload w) =
     ascii ''{"status": "ok", "timestamp": '' @ time_repr w @
     ascii '', "host": '' @ json_string (hostname w) @
     ascii '', "message": "VM-compatible dark mode server"}''\<close>
  by (simp add: json_dumps_def api_payload_def json_member_def json_string_def
      json_escape_char_def)

lemma json_dumps_api_payload_ascii:
  assumes "\<forall>c \<in> set (time_repr w). c < 128"
  shows "\<forall>c \<in> set (json_dumps (api_payload w)). c < 128"
  unfolding json_dumps_api_payload using assms json_string_ascii by (simp add: ball_Un)

text \<open>
  C5. A request for exactly \<open>/tcpstates\<close> is answered with status 200, the content type
  \<open>application/json\<close>, a \<open>Content-Length\<close> that is the number of bytes of the body, and as
  body the JSON text of the dictionary with the four keys \<open>status\<close> (\<open>ok\<close>), \<open>timestamp\<close>
  (the float \<open>time.time()\<close>), \<open>host\<close> (the host name) and \<open>message\<close>
  (\<open>VM-compatible dark mode server\<close>), in this order. (The \<open>repr\<close> of a float is ASCII.)
\<close>

theorem api_status_response:
  assumes "\<forall>c \<in> set (time_repr w). c < 128"
  shows \<open>\<exists>body.
     do_GET w (ascii ''/tcpstates'') =
       [SendResponse 200,
        SendHeader (ascii ''Content-Type'') (ascii ''application/json''),
        SendHeader (ascii ''Content-Length'') (str_nat (length body)),
        EndHeaders,
        Write body] \<and>
     utf8_encode (json_dumps (api_payload w)) = Some body \<and>
     body = ascii ''{"status": "ok", "timestamp": '' @ time_repr w @
            ascii '', "host": '' @ json_string (hostname w) @
            ascii '', "message": "VM-compatible dark mode server"}'' \<and>
     api_payload w =
       [(ascii ''status'', JString (ascii ''ok'')),
        (ascii ''timestamp'', JFloat (time_repr w)),
        (ascii ''host'', JString (hostname w)),
        (ascii ''message'', JString (ascii ''VM-compatible dark mode server''))]\<close>
proof -
  let ?body = "json_dumps (api_payload w)"
  have e: "utf8_encode ?body = Some ?body"
    using json_dumps_api_payload_ascii [OF assms] by (rule utf8_encode_ascii)
  then have "do_GET w (ascii ''/tcpstates'') =
       [SendResponse 200,
        SendHeader (ascii ''Content-Type'') (ascii ''application/json''),
        SendHeader (ascii ''Content-Length'') (str_nat (length ?body)),
        EndHeaders,
        Write ?body]"
    by (simp add: do_GET_def handle_api_def)
  moreover note e json_dumps_api_payload [of w]
  moreover have "api_payload w =
       [(ascii ''status'', JString (ascii ''ok'')),
        (ascii ''timestamp'', JFloat (time_repr w)),
        (ascii ''host'', JString (hostname w)),
        (ascii ''message'', JString (ascii ''VM-compatible dark mode server''))]"
    by (simp only: api_payload_def)
  ultimately show ?thesis by blast
qed

theorem api_status_response_witness:
  \<open>time_repr example_world = ascii ''1700000000.5'' \<and>
   do_GET example_world (ascii ''/tcpstates'') =
     [SendResponse 200,
      SendHeader (ascii ''Content-Type'') (ascii ''application/json''),
      SendHeader (ascii ''Content-Length'')
        (str_nat (length (ascii ''{"status": "ok", "timestamp": 1700000000.5, "host": "vm1", "message": "VM-compatible dark mode server"}''))),
      EndHeaders,
      Write (ascii ''{"status": "ok", "timestamp": 1700000000.5, "host": "vm1", "message": "VM-compatible dark mode server"}'')]\<close>
proof -
  have h: "\<forall>c \<in> set (time_repr example_world). c < 128" by (simp add: example_world_def)
  from api_status_response [OF h] obtain body where
    g: "do_GET example_world (ascii ''/tcpstates'') =
       [SendResponse 200,
        SendHeader (ascii ''Content-Type'') (ascii ''application/json''),
        SendHeader (ascii ''Content-Length'') (str_nat (length body)),
        EndHeaders,
        Write body]"
    and b: \<open>body = ascii ''{"status": "ok", "timestamp": '' @ time_repr example_world @
            ascii '', "host": '' @ json_string (hostname example_world) @
            ascii '', "message": "VM-compatible dark mode server"}''\<close>
    by blast
  have b': \<open>body = ascii ''{"status": "ok", "timestamp": 1700000000.5, "host": "vm1", "message": "VM-compatible dark mode server"}''\<close>
    unfolding b by (simp add: example_world_def json_string_def json_escape_char_def)
  have t: "time_repr example_world = ascii ''1700000000.5''" by (simp add: example_world_def)
  show ?thesis using t g unfolding b' by blast
qed

section \<open>The admission gate\<close>

lemma count_update:
  "i < length xs \<Longrightarrow>
     length (filter P (xs[i := y])) + (if P (xs ! i) then 1 else 0) =
     length (filter P xs) + (if P y then 1 else 0)"
proof (induction xs arbitrary: i)
  case Nil
  then show ?case by simp
next
  case (Cons x xs)
  then show ?case by (cases i) auto
qed

lemma fire_Acquire:
  assumes "fire (Acquire i) g = Some g'"
  shows "i < length (threads g)" and "threads g ! i = Waiting" and "0 < sem g"
    and "sem g' = sem g - 1" and "threads g' = (threads g)[i := Handling]"
  using assms by (auto simp: sem_acquire_def split: if_splits)

lemma fire_Release:
  assumes "fire (Release i body) g = Some g'"
  shows "i < length (threads g)" and "threads g ! i = Handling"
    and "sem g' = sem g + 1" and "threads g' = (threads g)[i := Finished body]"
  using assms by (auto simp: sem_release_def split: if_splits)

lemma fire_length: "fire e g = Some g' \<Longrightarrow> length (threads g') = length (threads g)"
  by (cases e) (auto split: if_splits option.splits)

lemma fire_balance:
  assumes "fire e g = Some g'"
  shows "sem g' + inside g' = sem g + inside g"
proof (cases e)
  case (Acquire i)
  note f = fire_Acquire [OF assms [unfolded Acquire]]
  from count_update [OF f(1), of "\<lambda>p. p = Handling" Handling] f(2)
  have "inside g' = inside g + 1" by (simp add: inside_def f(5))
  with f(3,4) show ?thesis by simp
next
  case (Release i body)
  note f = fire_Release [OF assms [unfolded Release]]
  from count_update [OF f(1), of "\<lambda>p. p = Handling" "Finished body"] f(2)
  have "inside g' + 1 = inside g" by (simp add: inside_def f(4))
  with f(3) show ?thesis by simp
qed

lemma run_balance: "run evs g = Some g' \<Longrightarrow> sem g' + inside g' = sem g + inside g"
  by (induction evs arbitrary: g) (auto split: option.splits dest: fire_balance)

lemma run_length: "run evs g = Some g' \<Longrightarrow> length (threads g') = length (threads g)"
  by (induction evs arbitrary: g) (auto split: option.splits dest: fire_length)

lemma inside_start: "inside (start N n) = 0"
  by (simp add: inside_def start_def)

lemma run_start_balance:
  assumes "run evs (start N n) = Some g"
  shows "sem g + inside g = N"
  using run_balance [OF assms] by (simp add: inside_start) (simp add: start_def)

lemma blocked_when_full:
  assumes "sem g = 0"
  shows "fire (Acquire i) g = None"
  using assms by (simp add: sem_acquire_def)

lemma acquire_after_release:
  assumes "fire (Release j body) g = Some g'" and "i < length (threads g)"
    and "threads g ! i = Waiting"
  shows "fire (Acquire i) g' \<noteq> None"
proof -
  note f = fire_Release [OF assms(1)]
  have "i \<noteq> j" using assms(3) f(2) by auto
  then have "threads g' ! i = Waiting" using assms(2,3) f(4) by simp
  moreover have "i < length (threads g')" using assms(2) f(4) by simp
  moreover have "sem g' \<noteq> 0" using f(3) by simp
  ultimately show ?thesis by (simp add: sem_acquire_def)
qed

lemma fire_two_phase:
  assumes "fire e g = Some g'" and "is_acquire e" and "two_phase g"
  shows "two_phase g'"
proof (cases e)
  case (Acquire i)
  note f = fire_Acquire [OF assms(1) [unfolded Acquire]]
  show ?thesis using assms(3) unfolding two_phase_def f(5)
    by (auto dest: set_update_subset_insert [THEN subsetD])
next
  case (Release i body)
  with assms(2) show ?thesis by simp
qed

lemma run_two_phase:
  "run evs g = Some g' \<Longrightarrow> \<forall>e \<in> set evs. is_acquire e \<Longrightarrow> two_phase g \<Longrightarrow> two_phase g'"
  by (induction evs arbitrary: g) (auto split: option.splits dest: fire_two_phase)

lemma two_phase_count:
  "\<forall>p \<in> set ps. p = Waiting \<or> p = Handling \<Longrightarrow>
     length (filter (\<lambda>p. p = Waiting) ps) + length (filter (\<lambda>p. p = Handling) ps) = length ps"
  by (induction ps) auto

lemma all_blocked:
  assumes "\<forall>i. fire (Acquire i) g = None"
  shows "sem g = 0 \<or> waiting g = 0"
proof (rule ccontr)
  assume "\<not> (sem g = 0 \<or> waiting g = 0)"
  then have s: "sem g \<noteq> 0" and w: "filter (\<lambda>p. p = Waiting) (threads g) \<noteq> []"
    by (simp_all add: waiting_def)
  from w have "Waiting \<in> set (threads g)" by (auto simp: filter_empty_conv)
  then obtain i where "i < length (threads g)" "threads g ! i = Waiting"
    by (auto simp: in_set_conv_nth)
  with s have "fire (Acquire i) g \<noteq> None" by (simp add: sem_acquire_def)
  moreover have "fire (Acquire i) g = None" using assms by (rule spec)
  ultimately show False by (rule notE)
qed

text \<open>
  C2. With \<open>Semaphore(N)\<close>, whatever the schedule, at most \<open>N\<close> requests are past the gate,
  and the counter and the requests inside add up to \<open>N\<close>; when \<open>N\<close> are inside, every
  \<open>acquire\<close> waits. When \<open>N + k\<close> requests arrive and none finishes, then once no further
  \<open>acquire\<close> can return exactly \<open>N\<close> are inside and \<open>k\<close> wait; and a waiting request can
  enter as soon as one inside has released its slot.
\<close>

theorem admission_bound:
  "(run evs (start N n) = Some g \<longrightarrow>
      inside g \<le> N \<and> sem g + inside g = N \<and>
      (inside g = N \<longrightarrow> (\<forall>i. fire (Acquire i) g = None))) \<and>
   (run evs (start N (N + k)) = Some g \<and> (\<forall>e \<in> set evs. is_acquire e) \<and>
    (\<forall>i. fire (Acquire i) g = None) \<longrightarrow>
      inside g = N \<and> waiting g = k) \<and>
   (fire (Release j body) g = Some g' \<and> i < length (threads g) \<and> threads g ! i = Waiting \<longrightarrow>
      fire (Acquire i) g' \<noteq> None)"
proof -
  have a: "inside g \<le> N \<and> sem g + inside g = N \<and>
      (inside g = N \<longrightarrow> (\<forall>i. fire (Acquire i) g = None))"
    if r: "run evs (start N n) = Some g"
  proof -
    have b: "sem g + inside g = N" using run_start_balance [OF r] .
    then have "inside g = N \<longrightarrow> (\<forall>i. fire (Acquire i) g = None)"
      using blocked_when_full [of g] by simp
    with b show ?thesis by simp
  qed
  have b: "inside g = N \<and> waiting g = k"
    if r: "run evs (start N (N + k)) = Some g" and acq: "\<forall>e \<in> set evs. is_acquire e"
      and blk: "\<forall>i. fire (Acquire i) g = None"
  proof -
    have bal: "sem g + inside g = N" using run_start_balance [OF r] .
    have "two_phase (start N (N + k))" by (simp add: two_phase_def start_def)
    from run_two_phase [OF r acq this] have "two_phase g" .
    then have "waiting g + inside g = length (threads g)"
      using two_phase_count [of "threads g"] by (simp add: two_phase_def waiting_def inside_def)
    moreover have "length (threads g) = N + k" using run_length [OF r] by (simp add: start_def)
    ultimately have tot: "waiting g + inside g = N + k" by simp
    from all_blocked [OF blk] show ?thesis
    proof
      assume "sem g = 0"
      with bal tot show ?thesis by simp
    next
      assume "waiting g = 0"
      with bal tot show ?thesis by simp
    qed
  qed
  show ?thesis using a b acquire_after_release by blast
qed

theorem admission_bound_witness:
  "run [Acquire 0, Acquire 2] (start 2 3) =
     Some \<lparr>sem = 0, threads = [Handling, Waiting, Handling]\<rparr> \<and>
   is_acquire (Acquire 0) \<and> is_acquire (Acquire 2) \<and>
   (\<forall>i. fire (Acquire i) \<lparr>sem = 0, threads = [Handling, Waiting, Handling]\<rparr> = None) \<and>
   inside \<lparr>sem = 0, threads = [Handling, Waiting, Handling]\<rparr> = 2 \<and>
   waiting \<lparr>sem = 0, threads = [Handling, Waiting, Handling]\<rparr> = 1 \<and>
   fire (Release 0 None) \<lparr>sem = 0, threads = [Handling, Waiting, Handling]\<rparr> =
     Some \<lparr>sem = 1, threads = [Finished None, Waiting, Handling]\<rparr> \<and>
   fire (Acquire 1) \<lparr>sem = 1, threads = [Finished None, Waiting, Handling]\<rparr> \<noteq> None"
proof -
  let ?g = "\<lparr>sem = 0, threads = [Handling, Waiting, Handling]\<rparr>"
  let ?g' = "\<lparr>sem = 1, threads = [Finished None, Waiting, Handling]\<rparr>"
  have r: "run [Acquire 0, Acquire 2] (start 2 (2 + 1)) = Some ?g"
    by (simp add: start_def sem_acquire_def numeral_3_eq_3 numeral_2_eq_2)
  have acq: "\<forall>e \<in> set [Acquire 0, Acquire 2]. is_acquire e" by simp
  have blk: "\<forall>i. fire (Acquire i) ?g = None" by (simp add: sem_acquire_def)
  have rel: "fire (Release 0 None) ?g = Some ?g'" by (simp add: sem_release_def)
  note th = admission_bound [of "[Acquire 0, Acquire 2]" 2 _ ?g 1 0 None ?g' 1]
  from th r acq blk have "inside ?g = 2 \<and> waiting ?g = 1" by blast
  moreover from th rel have "fire (Acquire 1) ?g' \<noteq> None" by simp
  ultimately show ?thesis using r blk rel by simp
qed

lemma fire_ops:
  assumes "fire e g = Some g'" and "i < length (threads g)"
  shows "fst (phase_ops (threads g' ! i)) = fst (phase_ops (threads g ! i)) + fst (event_ops i e)"
    and "snd (phase_ops (threads g' ! i)) = snd (phase_ops (threads g ! i)) + snd (event_ops i e)"
proof -
  have "fst (phase_ops (threads g' ! i)) = fst (phase_ops (threads g ! i)) + fst (event_ops i e) \<and>
        snd (phase_ops (threads g' ! i)) = snd (phase_ops (threads g ! i)) + snd (event_ops i e)"
  proof (cases e)
    case (Acquire j)
    note f = fire_Acquire [OF assms(1) [unfolded Acquire]]
    show ?thesis using f(1,2) assms(2) by (simp add: Acquire f(5) nth_list_update)
  next
    case (Release j body)
    note f = fire_Release [OF assms(1) [unfolded Release]]
    show ?thesis using f(1,2) assms(2) by (simp add: Release f(4) nth_list_update)
  qed
  then show "fst (phase_ops (threads g' ! i)) = fst (phase_ops (threads g ! i)) + fst (event_ops i e)"
    and "snd (phase_ops (threads g' ! i)) = snd (phase_ops (threads g ! i)) + snd (event_ops i e)"
    by simp_all
qed

lemma run_ops:
  "run evs g = Some g' \<Longrightarrow> i < length (threads g) \<Longrightarrow>
     fst (phase_ops (threads g' ! i)) = fst (phase_ops (threads g ! i)) + acquires_of i evs \<and>
     snd (phase_ops (threads g' ! i)) = snd (phase_ops (threads g ! i)) + releases_of i evs"
proof (induction evs arbitrary: g)
  case Nil
  then show ?case by (simp add: acquires_of_def releases_of_def)
next
  case (Cons e evs)
  from Cons.prems(1) obtain g1 where f: "fire e g = Some g1" and r: "run evs g1 = Some g'"
    by (auto split: option.splits)
  have l: "i < length (threads g1)" using fire_length [OF f] Cons.prems(2) by simp
  from Cons.IH [OF r l] fire_ops [OF f Cons.prems(2)]
  show ?case by (simp add: acquires_of_def releases_of_def)
qed

lemma phase_ops_bounds: "snd (phase_ops p) \<le> fst (phase_ops p) \<and> fst (phase_ops p) \<le> 1"
  by (cases p) simp_all

text \<open>
  C3. \<open>handle_one_request\<close> takes a slot and gives it back exactly once however the request
  ends (normally, by a disconnect, by any other exception), leaves the counter as it found
  it and marks the connection for closing. Hence in every schedule the counter stays between
  0 and the maximum and is the maximum again whenever no request is inside, and every thread
  has called \<open>release\<close> at most once, never before its \<open>acquire\<close>, and exactly once when it
  has finished.
\<close>

theorem slot_released_on_every_exit:
  "(0 < v \<longrightarrow>
      (\<exists>h' raised. handle_one_request v h body = Some (v, h', raised) \<and>
         close_connection h' \<and> sem_ops h' = sem_ops h @ [AcquireOp, ReleaseOp] \<and>
         raised = (if body = Some NonException then Some NonException else None))) \<and>
   (run evs (start N n) = Some g \<longrightarrow>
      sem g \<le> N \<and> (inside g = 0 \<longrightarrow> sem g = N) \<and>
      (\<forall>i < n. acquires_of i evs = fst (phase_ops (threads g ! i)) \<and>
               releases_of i evs = snd (phase_ops (threads g ! i)) \<and>
               releases_of i evs \<le> acquires_of i evs \<and> acquires_of i evs \<le> 1))"
proof -
  have a: "\<exists>h' raised. handle_one_request v h body = Some (v, h', raised) \<and>
         close_connection h' \<and> sem_ops h' = sem_ops h @ [AcquireOp, ReleaseOp] \<and>
         raised = (if body = Some NonException then Some NonException else None)"
    if "0 < v"
    using that
    by (auto simp: handle_one_request_def sem_acquire_def sem_release_def Let_def
        split: option.splits failure.splits)
  have b: "sem g \<le> N \<and> (inside g = 0 \<longrightarrow> sem g = N) \<and>
      (\<forall>i < n. acquires_of i evs = fst (phase_ops (threads g ! i)) \<and>
               releases_of i evs = snd (phase_ops (threads g ! i)) \<and>
               releases_of i evs \<le> acquires_of i evs \<and> acquires_of i evs \<le> 1)"
    if r: "run evs (start N n) = Some g"
  proof -
    have bal: "sem g + inside g = N" using run_start_balance [OF r] .
    have ops: "acquires_of i evs = fst (phase_ops (threads g ! i)) \<and>
               releases_of i evs = snd (phase_ops (threads g ! i)) \<and>
               releases_of i evs \<le> acquires_of i evs \<and> acquires_of i evs \<le> 1"
      if "i < n" for i
    proof -
      have "i < length (threads (start N n))" using that by (simp add: start_def)
      from run_ops [OF r this] that
      have "acquires_of i evs = fst (phase_ops (threads g ! i))"
        and "releases_of i evs = snd (phase_ops (threads g ! i))"
        by (simp_all add: start_def)
      then show ?thesis using phase_ops_bounds [of "threads g ! i"] by simp
    qed
    have s1: "sem g \<le> N" and s2: "inside g = 0 \<longrightarrow> sem g = N" using bal by simp_all
    have s3: "\<forall>i < n. acquires_of i evs = fst (phase_ops (threads g ! i)) \<and>
               releases_of i evs = snd (phase_ops (threads g ! i)) \<and>
               releases_of i evs \<le> acquires_of i evs \<and> acquires_of i evs \<le> 1"
      using ops by blast
    show ?thesis using s1 s2 s3 by blast
  qed
  show ?thesis using a b by blast
qed

theorem slot_released_on_every_exit_witness:
  "(0::nat) < 100 \<and>
   handle_one_request 100 \<lparr>close_connection = False, log = [], sem_ops = []\<rparr>
       (Some ClientDisconnected) =
     Some (100, \<lparr>close_connection = True, log = [Warning], sem_ops = [AcquireOp, ReleaseOp]\<rparr>,
           None) \<and>
   run [Acquire 1, Acquire 0, Release 1 (Some OtherException), Release 0 None] (start 2 2) =
     Some \<lparr>sem = 2, threads = [Finished None, Finished (Some OtherException)]\<rparr> \<and>
   releases_of 0 [Acquire 1, Acquire 0, Release 1 (Some OtherException), Release 0 None] = 1 \<and>
   releases_of 1 [Acquire 1, Acquire 0, Release 1 (Some OtherException), Release 0 None] = 1"
proof -
  let ?evs = "[Acquire 1, Acquire 0, Release 1 (Some OtherException), Release 0 None]"
  let ?g = "\<lparr>sem = 2, threads = [Finished None, Finished (Some OtherException)]\<rparr>"
  let ?h = "\<lparr>close_connection = False, log = [], sem_ops = []\<rparr>"
  have r: "run ?evs (start 2 2) = Some ?g"
    by (simp add: start_def sem_acquire_def sem_release_def numeral_2_eq_2)
  have p: "(0::nat) < 100" by simp
  note th = slot_released_on_every_exit [of 100 ?h "Some ClientDisconnected" ?evs 2 2 ?g]
  from th r have "\<forall>i < 2. releases_of i ?evs = snd (phase_ops (threads ?g ! i))" by blast
  then have "releases_of 0 ?evs = snd (phase_ops (threads ?g ! 0))"
    and "releases_of 1 ?evs = snd (phase_ops (threads ?g ! 1))" by simp_all
  then have c: "releases_of 0 ?evs = 1" "releases_of 1 ?evs = 1" by simp_all
  from th p obtain h' raised where
    "handle_one_request 100 ?h (Some ClientDisconnected) = Some (100, h', raised)" by blast
  then have "handle_one_request 100 ?h (Some ClientDisconnected) =
     Some (100, \<lparr>close_connection = True, log = [Warning], sem_ops = [AcquireOp, ReleaseOp]\<rparr>,
           None)"
    by (simp add: handle_one_request_def sem_acquire_def sem_release_def Let_def)
  with r c show ?thesis by simp
qed

section \<open>Requests with \<open>..\<close> parts\<close>

lemma step_seg_extends:
  assumes "step_seg root (ext @ tb) seg = Inr t" and "seg \<noteq> ascii ''..''"
  shows "\<exists>ext'. t = ext' @ tb"
proof (cases "cur root (ext @ tb)")
  case (File sz)
  with assms show ?thesis by (simp add: step_seg_def)
next
  case (Dir r x es)
  with assms have "t = ext @ tb \<or> (\<exists>n. t = ((seg, n) # ext) @ tb)"
    by (auto simp: step_seg_def split: if_splits option.splits)
  then show ?thesis by blast
qed

lemma walk_extends:
  "walk root (ext @ tb) segs = Inr t \<Longrightarrow> ascii ''..'' \<notin> set segs \<Longrightarrow> \<exists>ext'. t = ext' @ tb"
proof (induction segs arbitrary: ext)
  case Nil
  then have "t = ext @ tb" by simp
  then show ?case by blast
next
  case (Cons seg segs)
  from Cons.prems(1) obtain t1 where s: "step_seg root (ext @ tb) seg = Inr t1"
    and w: "walk root t1 segs = Inr t" by (auto split: sum.splits)
  from Cons.prems(2) have "seg \<noteq> ascii ''..''" by auto
  from step_seg_extends [OF s this] obtain ext1 where "t1 = ext1 @ tb" by blast
  with w Cons.IH [of ext1] Cons.prems(2) show ?case by auto
qed

text \<open>
  A request without a \<open>..\<close> part stays within the base directory: its target lies below
  the place the base path leads to.
\<close>

lemma request_without_dotdot_within:
  assumes "stat root base = Inr (base_loc, b)"
    and "stat root (request_path base raw) = Inr (loc, n)"
    and "ascii ''..'' \<notin> set (parse_parts (lstrip_slash raw))"
  shows "is_within base_loc loc"
proof -
  let ?segs = "parse_parts (lstrip_slash raw)"
  from stat_InrD(3) [OF assms(1)] obtain tb where tb: "walk root [] base = Inr tb"
    and bl: "base_loc = location tb" by blast
  from stat_InrD(3) [OF assms(2)] obtain t where t: "walk root [] (base @ ?segs) = Inr t"
    and l: "loc = location t" by (auto simp: request_path_def joinpath_def)
  from t tb have "walk root ([] @ tb) ?segs = Inr t" by (simp add: walk_append)
  from walk_extends [OF this assms(3)] obtain ext where "t = ext @ tb" by blast
  then show ?thesis using bl l by (simp add: is_within_def location_def)
qed

lemma walk_named:
  "walk root t segs = Inr t' \<Longrightarrow> ascii ''..'' \<notin> set segs \<Longrightarrow> ascii ''.'' \<notin> set segs \<Longrightarrow>
     location t' = location t @ segs"
proof (induction segs arbitrary: t)
  case Nil
  then show ?case by simp
next
  case (Cons seg segs)
  from Cons.prems(1) obtain t1 where s: "step_seg root t seg = Inr t1"
    and w: "walk root t1 segs = Inr t'" by (auto split: sum.splits)
  from Cons.prems(2,3) have n: "seg \<noteq> ascii ''..''" "seg \<noteq> ascii ''.''" by auto
  from s n obtain c where "t1 = (seg, c) # t"
    by (auto simp: step_seg_def split: node.splits option.splits if_splits)
  then have "location t1 = location t @ [seg]" by (simp add: location_def)
  with Cons.IH [OF w] Cons.prems(2,3) show ?case by simp
qed

text \<open>
  A request without a \<open>..\<close> part is resolved to the place of the base directory followed
  by its parts. So, when \<open>self.base_path\<close> has no \<open>..\<close> or \<open>.\<close> of its own, such a
  request reaches the base directory itself exactly when its path equals \<open>self.base_path\<close>.
\<close>

lemma request_without_dotdot_location:
  assumes "stat root base = Inr (base_loc, b)"
    and "stat root (request_path base raw) = Inr (loc, n)"
    and "ascii ''..'' \<notin> set (parse_parts (lstrip_slash raw))"
  shows "loc = base_loc @ parse_parts (lstrip_slash raw)"
proof -
  let ?segs = "parse_parts (lstrip_slash raw)"
  from stat_InrD(3) [OF assms(1)] obtain tb where tb: "walk root [] base = Inr tb"
    and bl: "base_loc = location tb" by blast
  from stat_InrD(3) [OF assms(2)] obtain t where t: "walk root [] (base @ ?segs) = Inr t"
    and l: "loc = location t" by (auto simp: request_path_def joinpath_def)
  from t tb have w: "walk root tb ?segs = Inr t" by (simp add: walk_append)
  have "ascii ''.'' \<notin> set ?segs" by (simp add: parse_parts_def del: ascii_simps)
  from walk_named [OF w assms(3) this] bl l show ?thesis by simp
qed

lemma request_without_dotdot_is_base:
  assumes "stat root base = Inr (base, b)"
    and "stat root (request_path base raw) = Inr (loc, n)"
    and "ascii ''..'' \<notin> set (parse_parts (lstrip_slash raw))"
  shows "(loc = base) = (request_path base raw = base)"
  using request_without_dotdot_location [OF assms] by (simp add: request_path_def joinpath_def)

lemma size_label_5: "size_label 5 = ascii ''0.0 KB''"
  by (simp add: size_label_pos truediv_1024_exact spec_size_label_def
      round_half_even_div_def str_nat_digit)

lemma size_label_10: "size_label 10 = ascii ''0.0 KB''"
  by (simp add: size_label_pos truediv_1024_exact spec_size_label_def
      round_half_even_div_def str_nat_digit)

lemma wf_example_world: "wf_node (fs example_world)"
  using wf_example_root by (simp add: example_world_def)

lemma stat_example_world_base:
  "stat (fs example_world) (base_path example_world) =
     Inr (example_base, Dir True True example_www)"
  using stat_example_base by (simp add: example_world_def)

lemma stat_example_dotdot:
  "stat (fs example_world) (example_base @ [ascii ''..'']) =
     Inr ([ascii ''srv''], Dir True True example_srv)"
  by (simp add: example_world_def stat_def example_root_def example_base_def example_srv_def
      step_seg_def cur_def location_def fs_eval)

lemma stat_example_empty_dotdot:
  "stat (fs example_world) (example_base @ [ascii ''empty'', ascii ''..'']) =
     Inr (example_base, Dir True True example_www)"
  by (simp add: example_world_def stat_def example_root_def example_base_def example_srv_def
      example_www_def step_seg_def cur_def location_def fs_eval)

text \<open>
  C1 fails on the code. The server runs in \<open>/srv/www\<close>; the request \<open>/..\<close> is looked up
  as \<open>/srv/www/..\<close>, which exists and is the directory \<open>/srv\<close>, outside the base directory;
  it is not treated as missing: the answer is 200 with the listing of \<open>/srv\<close>, which shows
  \<open>secret.txt\<close>.
\<close>

theorem traversal_lists_outside_base:
  "request_path (base_path example_world) (ascii ''/..'') = example_base @ [ascii ''..''] \<and>
   stat (fs example_world) (base_path example_world) =
     Inr (example_base, Dir True True example_www) \<and>
   stat (fs example_world) (request_path (base_path example_world) (ascii ''/..'')) =
     Inr ([ascii ''srv''], Dir True True example_srv) \<and>
   \<not> is_within example_base [ascii ''srv''] \<and>
   collect_items (fs example_world) (base_path example_world)
       (request_path (base_path example_world) (ascii ''/..'')) =
     Inr [(ascii ''../'', ascii ''Parent Directory'', ascii ''-''),
          (ascii ''secret.txt'', ascii ''File'', ascii ''0.0 KB''),
          (ascii ''www/'', ascii ''Directory'', ascii ''-'')] \<and>
   (\<exists>body.
      do_GET example_world (ascii ''/..'') =
        [SendResponse 200,
         SendHeader (ascii ''Content-Type'') (ascii ''text/html''),
         SendHeader (ascii ''Content-Length'')
           (str_nat (length (listing_html example_world (example_base @ [ascii ''..''])
              [(ascii ''../'', ascii ''Parent Directory'', ascii ''-''),
               (ascii ''secret.txt'', ascii ''File'', ascii ''0.0 KB''),
               (ascii ''www/'', ascii ''Directory'', ascii ''-'')]))),
         EndHeaders,
         Write body])"
proof -
  let ?p = "example_base @ [ascii ''..'']"
  let ?items = "[(ascii ''../'', ascii ''Parent Directory'', ascii ''-''),
          (ascii ''secret.txt'', ascii ''File'', ascii ''0.0 KB''),
          (ascii ''www/'', ascii ''Directory'', ascii ''-'')]"
  have ne: "ascii ''/..'' \<noteq> ascii ''/tcpstates''" by simp
  have rp: "request_path (base_path example_world) (ascii ''/..'') = ?p"
    by (simp add: request_path_def joinpath_def parse_parts_def lstrip_slash_def example_world_def)
  note sb = stat_example_world_base
  note st = stat_example_dotdot
  have nw: "\<not> is_within example_base [ascii ''srv'']"
    by (simp add: is_within_def example_base_def)
  have fit: "children_fit ?p example_srv"
    by (simp add: example_base_def example_srv_def fs_eval)
  have pb: "?p \<noteq> base_path example_world" by (simp add: example_world_def)
  have "collect_items (fs example_world) (base_path example_world) ?p =
          Inr ([parent_item] @ map child_item (sort_key fst example_srv))"
    using collect_items_eq [OF wf_example_world st fit, of "base_path example_world"] pb
    by simp
  then have ci: "collect_items (fs example_world) (base_path example_world) ?p = Inr ?items"
    by (simp add: example_srv_def child_item_def parent_item_def size_label_5)
  have below: "\<forall>c \<in> set (listing_html example_world ?p ?items). c < 256"
    unfolding listing_html_def
    by (rule html_document_below_256)
      (simp_all add: listing_title_def relative_to_str_def example_world_def example_base_def
        file_items_def render_item_def)
  from utf8_encode_total [OF below] obtain body where
    e: "utf8_encode (listing_html example_world ?p ?items) = Some body" by blast
  have ex: "exists (fs example_world) ?p = Inr True"
    and d: "is_dir (fs example_world) ?p = Inr True"
    using st by (simp_all add: exists_def is_dir_def)
  have "do_GET example_world (ascii ''/..'') = send_directory_listing example_world ?p"
    using ne rp ex d by (simp add: do_GET_def handle_file_or_dir_def Let_def del: ascii_simps)
  also have "\<dots> = [SendResponse 200,
         SendHeader (ascii ''Content-Type'') (ascii ''text/html''),
         SendHeader (ascii ''Content-Length'')
           (str_nat (length (listing_html example_world ?p ?items))),
         EndHeaders,
         Write body]"
    using ci e by (simp add: send_directory_listing_def Let_def del: ascii_simps)
  finally show ?thesis using rp sb st nw ci by (simp del: ascii_simps)
qed

text \<open>
  C7 fails on the code, by the defect of C1. The server runs in \<open>/srv/www\<close>; the request
  \<open>/empty/..\<close> is looked up as \<open>/srv/www/empty/..\<close>, which is the base directory
  \<open>/srv/www\<close> itself. The path differs from \<open>self.base_path\<close>, so the listing of the base
  directory starts with the parent link \<open>../\<close>.
\<close>

theorem parent_link_in_base_listing:
  "request_path (base_path example_world) (ascii ''/empty/..'') =
     example_base @ [ascii ''empty'', ascii ''..''] \<and>
   stat (fs example_world) (base_path example_world) =
     Inr (example_base, Dir True True example_www) \<and>
   stat (fs example_world) (request_path (base_path example_world) (ascii ''/empty/..'')) =
     Inr (example_base, Dir True True example_www) \<and>
   collect_items (fs example_world) (base_path example_world)
       (request_path (base_path example_world) (ascii ''/empty/..'')) =
     Inr [(ascii ''../'', ascii ''Parent Directory'', ascii ''-''),
          (ascii ''empty/'', ascii ''Directory'', ascii ''-''),
          (ascii ''index.html'', ascii ''File'', ascii ''0.0 KB'')] \<and>
   (\<exists>body.
      do_GET example_world (ascii ''/empty/..'') =
        [SendResponse 200,
         SendHeader (ascii ''Content-Type'') (ascii ''text/html''),
         SendHeader (ascii ''Content-Length'')
           (str_nat (length (listing_html example_world
              (example_base @ [ascii ''empty'', ascii ''..''])
              [(ascii ''../'', ascii ''Parent Directory'', ascii ''-''),
               (ascii ''empty/'', ascii ''Directory'', ascii ''-''),
               (ascii ''index.html'', ascii ''File'', ascii ''0.0 KB'')]))),
         EndHeaders,
         Write body])"
proof -
  let ?p = "example_base @ [ascii ''empty'', ascii ''..'']"
  let ?items = "[(ascii ''../'', ascii ''Parent Directory'', ascii ''-''),
          (ascii ''empty/'', ascii ''Directory'', ascii ''-''),
          (ascii ''index.html'', ascii ''File'', ascii ''0.0 KB'')]"
  have ne: "ascii ''/empty/..'' \<noteq> ascii ''/tcpstates''" by simp
  have rp: "request_path (base_path example_world) (ascii ''/empty/..'') = ?p"
    by (simp add: request_path_def joinpath_def parse_parts_def lstrip_slash_def example_world_def)
  note sb = stat_example_world_base
  note st = stat_example_empty_dotdot
  have fit: "children_fit ?p example_www"
    by (simp add: example_base_def example_www_def fs_eval)
  have pb: "?p \<noteq> base_path example_world" by (simp add: example_world_def)
  have "collect_items (fs example_world) (base_path example_world) ?p =
          Inr ([parent_item] @ map child_item (sort_key fst example_www))"
    using collect_items_eq [OF wf_example_world st fit, of "base_path example_world"] pb
    by simp
  then have ci: "collect_items (fs example_world) (base_path example_world) ?p = Inr ?items"
    by (simp add: example_www_def child_item_def parent_item_def size_label_10)
  have below: "\<forall>c \<in> set (listing_html example_world ?p ?items). c < 256"
    unfolding listing_html_def
    by (rule html_document_below_256)
      (simp_all add: listing_title_def relative_to_str_def example_world_def example_base_def
        file_items_def render_item_def)
  from utf8_encode_total [OF below] obtain body where
    e: "utf8_encode (listing_html example_world ?p ?items) = Some body" by blast
  have ex: "exists (fs example_world) ?p = Inr True"
    and d: "is_dir (fs example_world) ?p = Inr True"
    using st by (simp_all add: exists_def is_dir_def)
  have "do_GET example_world (ascii ''/empty/..'') = send_directory_listing example_world ?p"
    using ne rp ex d by (simp add: do_GET_def handle_file_or_dir_def Let_def del: ascii_simps)
  also have "\<dots> = [SendResponse 200,
         SendHeader (ascii ''Content-Type'') (ascii ''text/html''),
         SendHeader (ascii ''Content-Length'')
           (str_nat (length (listing_html example_world ?p ?items))),
         EndHeaders,
         Write body]"
    using ci e by (simp add: send_directory_listing_def Let_def del: ascii_simps)
  finally show ?thesis using rp sb st ci by (simp del: ascii_simps)
qed

end
